theory Spec2Isabelle
  imports Main "HOL-Library.Word"
begin

unbundle bit_operations_syntax

section \<open>The decoder helpers of \<^verbatim>\<open>decoder_detail.h\<close>\<close>

text \<open>
  The header is a class template over a matcher type. Its \<^verbatim>\<open>opcode_type\<close> is an unsigned
  integer of \<^verbatim>\<open>opcode_bitsize\<close> bits: here \<open>'a word\<close>, with \<open>LENGTH('a)\<close> for
  \<^verbatim>\<open>opcode_bitsize\<close>. A bit string is a \<^verbatim>\<open>std::array<char, opcode_bitsize>\<close>: here a
  \<open>string\<close>, whose length the array type fixes to \<open>LENGTH('a)\<close>; the theorems carry that
  length as a hypothesis. Indices and shift counts are \<^verbatim>\<open>size_t\<close>; no computation on them
  leaves the range \<open>0 .. opcode_bitsize\<close>, so they are \<open>nat\<close>.
\<close>

subsection \<open>\<^verbatim>\<open>GetMaskAndExpect\<close>\<close>

text \<open>
  The \<^verbatim>\<open>for\<close> loop of \<^verbatim>\<open>GetMaskAndExpect\<close>, from index \<open>i\<close> on, with the two accumulators.
  \<^verbatim>\<open>one << bit_position\<close> is \<open>push_bit bit_position 1\<close>: \<open>bit_position\<close> is below the width.
\<close>

function GetMaskAndExpect_loop ::
  "string \<Rightarrow> nat \<Rightarrow> 'a::len word \<times> 'a word \<Rightarrow> 'a word \<times> 'a word" where
  "GetMaskAndExpect_loop bitstring i (msk, expect) =
     (if i < LENGTH('a) then
        (let bit_position = LENGTH('a) - i - 1 in
         if bitstring ! i = CHR ''0'' then
           GetMaskAndExpect_loop bitstring (i + 1)
             (msk OR push_bit bit_position 1, expect)
         else if bitstring ! i = CHR ''1'' then
           GetMaskAndExpect_loop bitstring (i + 1)
             (msk OR push_bit bit_position 1, expect OR push_bit bit_position 1)
         else
           GetMaskAndExpect_loop bitstring (i + 1) (msk, expect))
      else (msk, expect))"
  by pat_completeness auto
termination
  by (relation "measure (\<lambda>(bitstring, i, acc :: 'a word \<times> 'a word). LENGTH('a) - i)") auto

definition GetMaskAndExpect :: "string \<Rightarrow> 'a::len word \<times> 'a word" where
  "GetMaskAndExpect bitstring = GetMaskAndExpect_loop bitstring 0 (0, 0)"

text \<open>The pattern read as a binary integer, most significant digit first.\<close>

definition binary_value :: "string \<Rightarrow> nat" where
  "binary_value bitstring =
     foldl (\<lambda>acc c. 2 * acc + (if c = CHR ''1'' then 1 else 0)) 0 bitstring"

subsection \<open>\<^verbatim>\<open>GetArgInfo\<close>\<close>

text \<open>
  \<^verbatim>\<open>GetArgInfo<N>\<close> leaves in one of three ways: it throws \<^verbatim>\<open>std::out_of_range\<close>, its
  trailing assertion fails, or it returns the two tables.
\<close>

datatype error = OutOfRange | AssertionFailed

text \<open>
  Modelled from the spec: the macro \<^verbatim>\<open>ASSERT\<close> of \<^verbatim>\<open>dynarmic/common/assert.h\<close>, which is not
  among the sources. The spec has a failed assertion be a fatal assertion failure; a true
  condition lets the function go on.
\<close>

definition ASSERT :: "bool \<Rightarrow> error + unit" where
  "ASSERT cond = (if cond then Inr () else Inl AssertionFailed)"

text \<open>The local variables of \<^verbatim>\<open>GetArgInfo\<close>; \<open>'w\<close> is \<^verbatim>\<open>opcode_type\<close>.\<close>

record 'w arg_info_state =
  masks :: "'w list"
  shifts :: "nat list"
  arg_index :: nat
  ch :: char

text \<open>
  One iteration of the loop, at index \<open>i\<close>. The character \<^verbatim>\<open>0\<close> that marks a closed cursor
  is \<open>CHR 0x00\<close>. \<^verbatim>\<open>if constexpr (N > 0)\<close> selects a branch by the template argument. The
  throw leaves the function with \<open>Inl OutOfRange\<close>. The check \<^verbatim>\<open>arg_index >= N\<close> comes
  before both array writes, so the updates below are in range.
\<close>

definition GetArgInfo_body ::
  "nat \<Rightarrow> string \<Rightarrow> nat \<Rightarrow> 'a::len word arg_info_state \<Rightarrow> error + 'a word arg_info_state" where
  "GetArgInfo_body N bitstring i s =
     (if bitstring ! i = CHR ''0'' \<or> bitstring ! i = CHR ''1'' \<or> bitstring ! i = CHR ''-'' then
        (if ch s \<noteq> CHR 0x00 then Inr (s\<lparr>ch := CHR 0x00, arg_index := arg_index s + 1\<rparr>)
         else Inr s)
      else
        (let s = (if ch s = CHR 0x00 then s\<lparr>ch := bitstring ! i\<rparr>
                  else if ch s \<noteq> bitstring ! i then
                    s\<lparr>ch := bitstring ! i, arg_index := arg_index s + 1\<rparr>
                  else s)
         in if N > 0 then
              (let bit_position = LENGTH('a) - i - 1 in
               if arg_index s \<ge> N then Inl OutOfRange
               else Inr (s\<lparr>masks := (masks s)[arg_index s :=
                                       masks s ! arg_index s OR push_bit bit_position 1],
                            shifts := (shifts s)[arg_index s := bit_position]\<rparr>))
            else Inl OutOfRange))"

function GetArgInfo_loop ::
  "nat \<Rightarrow> string \<Rightarrow> nat \<Rightarrow> 'a::len word arg_info_state \<Rightarrow> error + 'a word arg_info_state" where
  "GetArgInfo_loop N bitstring i s =
     (if i < LENGTH('a) then
        (case GetArgInfo_body N bitstring i s of
           Inl e \<Rightarrow> Inl e
         | Inr s' \<Rightarrow> GetArgInfo_loop N bitstring (i + 1) s')
      else Inr s)"
  by pat_completeness auto
termination
  by (relation "measure (\<lambda>(N, bitstring, i, s :: 'a word arg_info_state). LENGTH('a) - i)") auto

text \<open>
  The whole function. \<open>ignore_asserts\<close> says whether \<^verbatim>\<open>DYNARMIC_IGNORE_ASSERTS\<close> is defined,
  which compiles the assertion out. Both arrays start zero-initialised.
\<close>

definition GetArgInfo ::
  "bool \<Rightarrow> nat \<Rightarrow> string \<Rightarrow> error + 'a::len word list \<times> nat list" where
  "GetArgInfo ignore_asserts N bitstring =
     (case GetArgInfo_loop N bitstring 0
             \<lparr>masks = replicate N 0, shifts = replicate N 0, arg_index = 0, ch = CHR 0x00\<rparr> of
        Inl e \<Rightarrow> Inl e
      | Inr s \<Rightarrow>
          (case (if ignore_asserts then Inr () else ASSERT (list_all (\<lambda>m. m \<noteq> 0) (masks s))) of
             Inl e \<Rightarrow> Inl e
           | Inr _ \<Rightarrow> Inr (masks s, shifts s)))"

text \<open>
  The cursor \<open>(arg_index, ch)\<close> after the first \<open>i\<close> iterations of the loop of
  \<^verbatim>\<open>GetArgInfo\<close>, when none of them has thrown: lines 80 to 91 of the source, without the
  tables. \<open>recorded_index bitstring j\<close> is the \<^verbatim>\<open>arg_index\<close> under which iteration \<open>j\<close>
  records its bit.
\<close>

primrec cursor :: "string \<Rightarrow> nat \<Rightarrow> nat \<times> char" where
  "cursor bitstring 0 = (0, CHR 0x00)"
| "cursor bitstring (Suc i) =
     (let (arg_index, ch) = cursor bitstring i in
      if bitstring ! i = CHR ''0'' \<or> bitstring ! i = CHR ''1'' \<or> bitstring ! i = CHR ''-'' then
        (if ch \<noteq> CHR 0x00 then (arg_index + 1, CHR 0x00) else (arg_index, ch))
      else
        (if ch = CHR 0x00 then (arg_index, bitstring ! i)
         else if ch \<noteq> bitstring ! i then (arg_index + 1, bitstring ! i)
         else (arg_index, ch)))"

definition recorded_index :: "string \<Rightarrow> nat \<Rightarrow> nat" where
  "recorded_index bitstring j = fst (cursor bitstring (Suc j))"

text \<open>
  The field index under which a returned mask table holds bit \<open>p\<close>: the first entry with
  that bit set, if there is one.
\<close>

definition index_at :: "'a::len word list \<Rightarrow> nat \<Rightarrow> nat option" where
  "index_at arg_masks p = find (\<lambda>k. bit (arg_masks ! k) p) [0..<length arg_masks]"

subsection \<open>Fields, as the specification describes them\<close>

text \<open>
  These definitions follow the words of the specification, not the code. A field marker
  is any character other than \<^verbatim>\<open>'0'\<close>, \<^verbatim>\<open>'1'\<close> and \<^verbatim>\<open>'-'\<close>. A field is a maximal contiguous
  run of one repeated field-marker character: position \<open>j\<close> starts a run when it holds a
  marker and is the first position or follows a different character. Fields are numbered
  in order of first appearance, left to right, from 0: the field of a marker position is
  the number of runs started up to it, less one.
\<close>

definition is_field_marker :: "char \<Rightarrow> bool" where
  "is_field_marker c = (c \<noteq> CHR ''0'' \<and> c \<noteq> CHR ''1'' \<and> c \<noteq> CHR ''-'')"

definition run_start :: "string \<Rightarrow> nat \<Rightarrow> bool" where
  "run_start bitstring j =
     (is_field_marker (bitstring ! j) \<and> (j = 0 \<or> bitstring ! (j - 1) \<noteq> bitstring ! j))"

definition runs_before :: "string \<Rightarrow> nat \<Rightarrow> nat" where
  "runs_before bitstring i = length (filter (run_start bitstring) [0..<i])"

definition field_count :: "string \<Rightarrow> nat" where
  "field_count bitstring = runs_before bitstring (length bitstring)"

definition field_of :: "string \<Rightarrow> nat \<Rightarrow> nat" where
  "field_of bitstring j = runs_before bitstring (Suc j) - 1"

definition field_positions :: "string \<Rightarrow> nat \<Rightarrow> nat list" where
  "field_positions bitstring k =
     filter (\<lambda>j. is_field_marker (bitstring ! j) \<and> field_of bitstring j = k)
       [0..<length bitstring]"

text \<open>
  The mask of a field is the OR of the single-bit masks at its positions; its shift is the
  bit position of its last, least significant, character.
\<close>

definition field_mask :: "string \<Rightarrow> nat \<Rightarrow> 'a::len word" where
  "field_mask bitstring k =
     fold (\<lambda>j m. m OR push_bit (LENGTH('a) - 1 - j) 1) (field_positions bitstring k) 0"

definition field_shift :: "nat \<Rightarrow> string \<Rightarrow> nat \<Rightarrow> nat" where
  "field_shift W bitstring k = W - 1 - last (field_positions bitstring k)"

subsection \<open>\<^verbatim>\<open>VisitorCaller::Make\<close> and \<^verbatim>\<open>GetMatcher\<close>\<close>

text \<open>
  The handler is a member function of the visitor with parameter types \<^verbatim>\<open>Args...\<close>. Here a
  handler takes the visitor and the list of its converted arguments, in one type \<open>'arg\<close>
  of argument values; what it does to a visitor it may mutate is part of its result
  \<open>'ret\<close>. The parameter pack \<^verbatim>\<open>Args\<close> is the list of the conversions
  \<^verbatim>\<open>static_cast<Args>\<close>, one for each parameter, each a function of the extracted value.
  The pack expansion pairs \<^verbatim>\<open>Args\<close> with \<^verbatim>\<open>iota\<close> position by position. The two
  specialisations (for a const and for a non-const member function) have the same body.

  The lambda evaluates \<^verbatim>\<open>(instruction & arg_masks[iota]) >> arg_shifts[iota]\<close> for every index
  of \<^verbatim>\<open>iota\<close>. Two things there have undefined behaviour in C++, and then the call has no
  value, \<open>None\<close>: an index outside an array, and a shift count that is not below the width
  of the promoted left operand. The operands of \<^verbatim>\<open>&\<close> and \<^verbatim>\<open>>>\<close> undergo integral promotion: an
  \<^verbatim>\<open>opcode_type\<close> narrower than \<^verbatim>\<open>int\<close> is promoted to \<^verbatim>\<open>int\<close>, which keeps its value, and a
  wider one stays as it is. With \<open>int_bits\<close> the width of \<^verbatim>\<open>int\<close>, which the implementation
  fixes, the promoted operand has \<open>max LENGTH('a) int_bits\<close> bits. A shift count below
  that width shifts the non-negative value to the right: \<open>drop_bit\<close>.
\<close>

definition shift_defined :: "nat \<Rightarrow> 'a::len word list \<Rightarrow> nat list \<Rightarrow> nat \<Rightarrow> bool" where
  "shift_defined int_bits arg_masks arg_shifts i =
     (i < length arg_masks \<and> i < length arg_shifts \<and>
      arg_shifts ! i < max LENGTH('a) int_bits)"

definition Make ::
  "nat \<Rightarrow> ('a::len word \<Rightarrow> 'arg) list \<Rightarrow> nat list \<Rightarrow> ('vis \<Rightarrow> 'arg list \<Rightarrow> 'ret) \<Rightarrow>
   'a word list \<Rightarrow> nat list \<Rightarrow> 'vis \<Rightarrow> 'a word \<Rightarrow> 'ret option" where
  "Make int_bits Args iota fn arg_masks arg_shifts =
     (\<lambda>v instruction.
        if list_all (shift_defined int_bits arg_masks arg_shifts) iota then
          Some (fn v (map2 (\<lambda>static_cast i.
                        static_cast (drop_bit (arg_shifts ! i) (instruction AND arg_masks ! i)))
                  Args iota))
        else None)"

text \<open>
  Modelled from the spec: the matcher type \<^verbatim>\<open>MatcherT\<close>, a template parameter whose
  definition is not among the sources. The spec has a matcher be the immutable value of
  a name, a mask, an expected value and the dispatch callable.
\<close>

record ('vis, 'w, 'ret) Matcher =
  matcher_name :: string
  matcher_mask :: 'w
  matcher_expect :: 'w
  matcher_fn :: "'vis \<Rightarrow> 'w \<Rightarrow> 'ret"

text \<open>
  \<^verbatim>\<open>args_count\<close> is the parameter count of the handler, the length of \<open>Args\<close>, and \<^verbatim>\<open>Iota\<close>
  the index sequence \<open>0, ..., args_count - 1\<close>.
\<close>

definition GetMatcher ::
  "nat \<Rightarrow> ('a::len word \<Rightarrow> 'arg) list \<Rightarrow> ('vis \<Rightarrow> 'arg list \<Rightarrow> 'ret) \<Rightarrow> string \<Rightarrow>
   'a word \<times> 'a word \<Rightarrow> 'a word list \<times> nat list \<Rightarrow> ('vis, 'a word, 'ret option) Matcher" where
  "GetMatcher int_bits Args fn name mask_and_expect masks_and_shifts =
     (let args_count = length Args;
          Iota = [0..<args_count];
          (msk, expect) = mask_and_expect;
          (arg_masks, arg_shifts) = masks_and_shifts;
          proxy_fn = Make int_bits Args Iota fn arg_masks arg_shifts
      in \<lparr>matcher_name = name, matcher_mask = msk, matcher_expect = expect,
          matcher_fn = proxy_fn\<rparr>)"

subsection \<open>Auxiliary notions for the proofs\<close>

text \<open>
  The positions from \<open>i\<close> on that the loop records under index \<open>k\<close>, the state in which
  \<^verbatim>\<open>GetArgInfo\<close> enters its loop, and what the loop, entered at index \<open>i\<close> in state \<open>s\<close>
  with the cursor of that index, has done when it is left with result \<open>r\<close>.
\<close>

definition recorded_positions :: "nat \<Rightarrow> string \<Rightarrow> nat \<Rightarrow> nat \<Rightarrow> nat list" where
  "recorded_positions W bitstring k i =
     filter (\<lambda>j. is_field_marker (bitstring ! j) \<and> recorded_index bitstring j = k) [i..<W]"

definition arg_info_init :: "nat \<Rightarrow> 'a::len word arg_info_state" where
  "arg_info_init N =
     \<lparr>masks = replicate N 0, shifts = replicate N 0, arg_index = 0, ch = CHR 0x00\<rparr>"

definition loop_post ::
  "nat \<Rightarrow> string \<Rightarrow> nat \<Rightarrow> 'a::len word arg_info_state \<Rightarrow>
   error + 'a word arg_info_state \<Rightarrow> bool" where
  "loop_post N bs i s r =
     (case r of
        Inl e \<Rightarrow> e = OutOfRange \<and>
          (\<exists>j. i \<le> j \<and> j < LENGTH('a) \<and> is_field_marker (bs ! j) \<and> N \<le> recorded_index bs j)
      | Inr s' \<Rightarrow>
          (\<forall>j. i \<le> j \<and> j < LENGTH('a) \<and> is_field_marker (bs ! j) \<longrightarrow> recorded_index bs j < N) \<and>
          length (masks s') = N \<and> length (shifts s') = N \<and>
          (\<forall>k<N. masks s' ! k =
                    fold (\<lambda>j m. m OR push_bit (LENGTH('a) - 1 - j) 1)
                      (recorded_positions LENGTH('a) bs k i) (masks s ! k) \<and>
                  shifts s' ! k =
                    fold (\<lambda>j sh. LENGTH('a) - 1 - j)
                      (recorded_positions LENGTH('a) bs k i) (shifts s ! k)))"


section \<open>The mask and the expected value\<close>


declare GetMaskAndExpect_loop.simps [simp del]

lemma bit_push_bit_one: "bit (push_bit n (1 :: 'a::len word)) p \<longleftrightarrow> p = n \<and> n < LENGTH('a)"
  by (auto simp add: bit_exp_iff)

lemma GetMaskAndExpect_loop_bits:
  "GetMaskAndExpect_loop bs i (msk, expect) = (msk' :: 'a::len word, expect') \<Longrightarrow>
   (bit msk' p \<longleftrightarrow> bit msk p \<or>
      (p < LENGTH('a) \<and> i \<le> LENGTH('a) - 1 - p \<and>
       (bs ! (LENGTH('a) - 1 - p) = CHR ''0'' \<or> bs ! (LENGTH('a) - 1 - p) = CHR ''1''))) \<and>
   (bit expect' p \<longleftrightarrow> bit expect p \<or>
      (p < LENGTH('a) \<and> i \<le> LENGTH('a) - 1 - p \<and> bs ! (LENGTH('a) - 1 - p) = CHR ''1''))"
proof (induction bs i "(msk, expect)" arbitrary: msk expect rule: GetMaskAndExpect_loop.induct)
  case (1 bs i msk expect)
  show ?case
  proof (cases "i < LENGTH('a)")
    case False
    with "1.prems" show ?thesis
      by (auto simp add: GetMaskAndExpect_loop.simps dest: bit_imp_le_length)
  next
    case True
    have here: "i \<le> LENGTH('a) - 1 - p \<longleftrightarrow> p = LENGTH('a) - i - 1 \<or> i + 1 \<le> LENGTH('a) - 1 - p"
      if "p < LENGTH('a)"
      using True that by auto
    have pos: "LENGTH('a) - 1 - (LENGTH('a) - i - 1) = i"
      using True by auto
    consider (zero) "bs ! i = CHR ''0''" | (one) "bs ! i = CHR ''1''"
      | (other) "bs ! i \<noteq> CHR ''0''" "bs ! i \<noteq> CHR ''1''" by blast
    then show ?thesis
    proof cases
      case zero
      with True "1.prems" have
        "GetMaskAndExpect_loop bs (i + 1) (msk OR push_bit (LENGTH('a) - i - 1) 1, expect) = (msk', expect')"
        by (simp add: GetMaskAndExpect_loop.simps [of bs i] Let_def)
      from "1.hyps"(1) [OF True refl zero this] True zero pos show ?thesis
        unfolding bit_or_iff bit_push_bit_one using here by (cases "p < LENGTH('a)") auto
    next
      case one
      with True "1.prems" have
        "GetMaskAndExpect_loop bs (i + 1) (msk OR push_bit (LENGTH('a) - i - 1) 1, expect OR push_bit (LENGTH('a) - i - 1) 1) = (msk', expect')"
        by (simp add: GetMaskAndExpect_loop.simps [of bs i] Let_def)
      from "1.hyps"(2) [OF True refl _ one this] True one pos show ?thesis
        unfolding bit_or_iff bit_push_bit_one using here by (cases "p < LENGTH('a)") auto
    next
      case other
      with True "1.prems" have
        "GetMaskAndExpect_loop bs (i + 1) (msk, expect) = (msk', expect')"
        by (simp add: GetMaskAndExpect_loop.simps [of bs i] Let_def)
      from "1.hyps"(3) [OF True refl other this] True other pos show ?thesis
        using here by (cases "p < LENGTH('a)") auto
    qed
  qed
qed


lemma GetMaskAndExpect_bit:
  fixes msk expect :: "'a::len word"
  assumes "GetMaskAndExpect bs = (msk, expect)" and "i < LENGTH('a)"
  shows "bit msk (LENGTH('a) - 1 - i) \<longleftrightarrow> bs ! i = CHR ''0'' \<or> bs ! i = CHR ''1''"
    and "bit expect (LENGTH('a) - 1 - i) \<longleftrightarrow> bs ! i = CHR ''1''"
proof -
  have p: "LENGTH('a) - 1 - i < LENGTH('a)" "LENGTH('a) - 1 - (LENGTH('a) - 1 - i) = i"
    using assms(2) by auto
  from assms(1) have "GetMaskAndExpect_loop bs 0 (0 :: 'a word, 0 :: 'a word) = (msk, expect)"
    by (simp add: GetMaskAndExpect_def)
  from GetMaskAndExpect_loop_bits [OF this, of "LENGTH('a) - 1 - i"] p
  show "bit msk (LENGTH('a) - 1 - i) \<longleftrightarrow> bs ! i = CHR ''0'' \<or> bs ! i = CHR ''1''"
    and "bit expect (LENGTH('a) - 1 - i) \<longleftrightarrow> bs ! i = CHR ''1''"
    by simp_all
qed

lemma binary_value_snoc:
  "binary_value (bs @ [c]) = 2 * binary_value bs + (if c = CHR ''1'' then 1 else 0)"
  by (simp add: binary_value_def)

lemma bit_binary_value:
  "bit (binary_value bs) p \<longleftrightarrow> p < length bs \<and> bs ! (length bs - 1 - p) = CHR ''1''"
proof (induction bs arbitrary: p rule: rev_induct)
  case Nil
  show ?case by (simp add: binary_value_def)
next
  case (snoc c bs)
  show ?case
  proof (cases p)
    case 0
    then show ?thesis by (simp add: binary_value_snoc bit_0)
  next
    case (Suc q)
    have "length bs - Suc q < length bs" "length bs - Suc q = length bs - 1 - q" if "q < length bs"
      using that by auto
    show ?thesis
    proof (cases "q < length bs")
      case True
      then have "length bs - Suc q < length bs"
        by arith
      then have "(bs @ [c]) ! (length (bs @ [c]) - 1 - Suc q) = bs ! (length bs - 1 - q)"
        by (simp add: nth_append)
      with Suc True show ?thesis
        by (simp add: binary_value_snoc bit_Suc snoc.IH)
    next
      case False
      with Suc show ?thesis
        by (simp add: binary_value_snoc bit_Suc snoc.IH)
    qed
  qed
qed

lemma word_bits_rev:
  "(\<forall>p<n. P p) \<longleftrightarrow> (\<forall>i<n. P (n - 1 - i))" for n :: nat
proof
  assume "\<forall>p<n. P p"
  then show "\<forall>i<n. P (n - 1 - i)" by simp
next
  assume r: "\<forall>i<n. P (n - 1 - i)"
  show "\<forall>p<n. P p"
  proof (intro allI impI)
    fix p assume "p < n"
    then have "n - 1 - p < n" "n - 1 - (n - 1 - p) = p" by auto
    with r [rule_format, of "n - 1 - p"] show "P p" by simp
  qed
qed

lemma GetMaskAndExpect_bit_at:
  fixes msk expect :: "'a::len word"
  assumes "GetMaskAndExpect bs = (msk, expect)" and "p < LENGTH('a)"
  shows "bit msk p \<longleftrightarrow> bs ! (LENGTH('a) - 1 - p) = CHR ''0'' \<or> bs ! (LENGTH('a) - 1 - p) = CHR ''1''"
    and "bit expect p \<longleftrightarrow> bs ! (LENGTH('a) - 1 - p) = CHR ''1''"
proof -
  from assms(2) have "LENGTH('a) - 1 - p < LENGTH('a)" "LENGTH('a) - 1 - (LENGTH('a) - 1 - p) = p"
    by auto
  with GetMaskAndExpect_bit [OF assms(1), of "LENGTH('a) - 1 - p"]
  show "bit msk p \<longleftrightarrow> bs ! (LENGTH('a) - 1 - p) = CHR ''0'' \<or> bs ! (LENGTH('a) - 1 - p) = CHR ''1''"
    and "bit expect p \<longleftrightarrow> bs ! (LENGTH('a) - 1 - p) = CHR ''1''"
    by simp_all
qed

lemma GetMaskAndExpect_all_fixed:
  fixes msk expect :: "'a::len word"
  assumes len: "length bs = LENGTH('a)" and res: "GetMaskAndExpect bs = (msk, expect)"
    and fixed: "set bs \<subseteq> {CHR ''0'', CHR ''1''}"
  shows "unat msk = 2 ^ LENGTH('a) - 1" and "unat expect = binary_value bs"
proof -
  have "msk = - 1"
  proof (rule bit_word_eqI)
    fix p assume p: "p < LENGTH('a)"
    then have "bs ! (LENGTH('a) - 1 - p) \<in> set bs"
      using len by simp
    with fixed have "bs ! (LENGTH('a) - 1 - p) = CHR ''0'' \<or> bs ! (LENGTH('a) - 1 - p) = CHR ''1''"
      by auto
    with GetMaskAndExpect_bit_at(1) [OF res p] p show "bit msk p \<longleftrightarrow> bit (- 1 :: 'a word) p"
      by simp
  qed
  then show "unat msk = 2 ^ LENGTH('a) - 1"
    by (simp add: unsigned_minus_1_eq_mask mask_eq_exp_minus_1)
  show "unat expect = binary_value bs"
  proof (rule bit_eqI)
    fix p
    show "bit (unat expect) p \<longleftrightarrow> bit (binary_value bs) p"
    proof (cases "p < LENGTH('a)")
      case True
      with GetMaskAndExpect_bit_at(2) [OF res True] len show ?thesis
        by (simp add: bit_unsigned_iff bit_binary_value)
    next
      case False
      with len show ?thesis
        by (auto simp add: bit_unsigned_iff bit_binary_value dest: bit_imp_le_length)
    qed
  qed
qed

text \<open>
  Claim C1. For a pattern of exactly \<open>W = LENGTH('a)\<close> characters, \<^verbatim>\<open>GetMaskAndExpect\<close>
  returns \<open>(mask, expect)\<close> where, for every position \<open>i\<close> counted from the left, bit
  \<open>W - 1 - i\<close> of the mask is set exactly when the character at \<open>i\<close> is \<^verbatim>\<open>'0'\<close> or \<^verbatim>\<open>'1'\<close>,
  and bit \<open>W - 1 - i\<close> of the expected value exactly when it is \<^verbatim>\<open>'1'\<close>; every other
  character leaves the bit 0 in both. For a pattern of \<^verbatim>\<open>'0'\<close> and \<^verbatim>\<open>'1'\<close> only, the mask
  is \<open>2 ^ W - 1\<close> and the expected value is the pattern read as a binary integer.
\<close>

theorem GetMaskAndExpect_correct:
  fixes msk expect :: "'a::len word"
  assumes "length bitstring = LENGTH('a)"
    and "GetMaskAndExpect bitstring = (msk, expect)"
  shows "(\<forall>i<LENGTH('a).
            (bit msk (LENGTH('a) - 1 - i) \<longleftrightarrow>
               bitstring ! i = CHR ''0'' \<or> bitstring ! i = CHR ''1'') \<and>
            (bit expect (LENGTH('a) - 1 - i) \<longleftrightarrow> bitstring ! i = CHR ''1'')) \<and>
         (set bitstring \<subseteq> {CHR ''0'', CHR ''1''} \<longrightarrow>
            unat msk = 2 ^ LENGTH('a) - 1 \<and> unat expect = binary_value bitstring)"
  using assms GetMaskAndExpect_bit [OF assms(2)] GetMaskAndExpect_all_fixed [OF assms]
  by blast

theorem GetMaskAndExpect_correct_witness:
  "length ''10110010'' = LENGTH(8) \<and>
   GetMaskAndExpect ''10110010'' = (255 :: 8 word, 178) \<and>
   set ''10110010'' \<subseteq> {CHR ''0'', CHR ''1''} \<and>
   bit (255 :: 8 word) (LENGTH(8) - 1 - 0) \<and> bit (178 :: 8 word) (LENGTH(8) - 1 - 0) \<and>
   bit (255 :: 8 word) (LENGTH(8) - 1 - 1) \<and> \<not> bit (178 :: 8 word) (LENGTH(8) - 1 - 1) \<and>
   unat (255 :: 8 word) = 2 ^ LENGTH(8) - 1 \<and>
   unat (178 :: 8 word) = binary_value ''10110010''"
proof -
  have len: "length ''10110010'' = LENGTH(8)"
    by simp
  have res: "GetMaskAndExpect ''10110010'' = (255 :: 8 word, 178)"
    by code_simp
  have fixed: "set ''10110010'' \<subseteq> {CHR ''0'', CHR ''1''}"
    by simp
  note t = GetMaskAndExpect_correct [OF len res]
  from t fixed have all: "unat (255 :: 8 word) = 2 ^ LENGTH(8) - 1"
    "unat (178 :: 8 word) = binary_value ''10110010''"
    by blast+
  from t have "0 < LENGTH(8) \<longrightarrow>
    (bit (255 :: 8 word) (LENGTH(8) - 1 - 0) \<longleftrightarrow>
       ''10110010'' ! 0 = CHR ''0'' \<or> ''10110010'' ! 0 = CHR ''1'') \<and>
    (bit (178 :: 8 word) (LENGTH(8) - 1 - 0) \<longleftrightarrow> ''10110010'' ! 0 = CHR ''1'')"
    by blast
  then have first: "bit (255 :: 8 word) (LENGTH(8) - 1 - 0)" "bit (178 :: 8 word) (LENGTH(8) - 1 - 0)"
    by simp_all
  from t have "1 < LENGTH(8) \<longrightarrow>
    (bit (255 :: 8 word) (LENGTH(8) - 1 - 1) \<longleftrightarrow>
       ''10110010'' ! 1 = CHR ''0'' \<or> ''10110010'' ! 1 = CHR ''1'') \<and>
    (bit (178 :: 8 word) (LENGTH(8) - 1 - 1) \<longleftrightarrow> ''10110010'' ! 1 = CHR ''1'')"
    by blast
  then have second: "bit (255 :: 8 word) (LENGTH(8) - 1 - 1)" "\<not> bit (178 :: 8 word) (LENGTH(8) - 1 - 1)"
    by simp_all
  from len res fixed all first second show ?thesis
    by blast
qed

lemma mask_test_bits:
  fixes msk expect x :: "'a::len word"
  assumes res: "GetMaskAndExpect bs = (msk, expect)"
  shows "x AND msk = expect \<longleftrightarrow>
    (\<forall>i<LENGTH('a). (bs ! i = CHR ''0'' \<longrightarrow> \<not> bit x (LENGTH('a) - 1 - i)) \<and>
                     (bs ! i = CHR ''1'' \<longrightarrow> bit x (LENGTH('a) - 1 - i)))"
proof -
  have "x AND msk = expect \<longleftrightarrow> (\<forall>p<LENGTH('a). bit (x AND msk) p = bit expect p)"
    by (auto intro: bit_word_eqI)
  also have "\<dots> \<longleftrightarrow> (\<forall>i<LENGTH('a). bit (x AND msk) (LENGTH('a) - 1 - i) = bit expect (LENGTH('a) - 1 - i))"
    by (rule word_bits_rev)
  also have "\<dots> \<longleftrightarrow> (\<forall>i<LENGTH('a). (bs ! i = CHR ''0'' \<longrightarrow> \<not> bit x (LENGTH('a) - 1 - i)) \<and>
                     (bs ! i = CHR ''1'' \<longrightarrow> bit x (LENGTH('a) - 1 - i)))"
    using GetMaskAndExpect_bit [OF res] by (auto simp add: bit_and_iff)
  finally show ?thesis .
qed

text \<open>
  Claim C2. For every pattern and every word \<open>x\<close>, the test \<open>x AND mask = expect\<close>
  succeeds exactly when every position of the pattern that holds \<^verbatim>\<open>'0'\<close> or \<^verbatim>\<open>'1'\<close> agrees
  with the corresponding bit of \<open>x\<close>. The bits of \<open>x\<close> at the other positions never
  matter: a word \<open>y\<close> that agrees with \<open>x\<close> at the fixed positions gives the same outcome.
\<close>

theorem mask_test_iff_fixed_bits_agree:
  fixes msk expect x y :: "'a::len word"
  assumes "length bitstring = LENGTH('a)"
    and "GetMaskAndExpect bitstring = (msk, expect)"
  shows "(x AND msk = expect \<longleftrightarrow>
            (\<forall>i<LENGTH('a).
               (bitstring ! i = CHR ''0'' \<longrightarrow> \<not> bit x (LENGTH('a) - 1 - i)) \<and>
               (bitstring ! i = CHR ''1'' \<longrightarrow> bit x (LENGTH('a) - 1 - i)))) \<and>
         ((\<forall>i<LENGTH('a). bitstring ! i = CHR ''0'' \<or> bitstring ! i = CHR ''1'' \<longrightarrow>
               bit y (LENGTH('a) - 1 - i) = bit x (LENGTH('a) - 1 - i)) \<longrightarrow>
            (y AND msk = expect \<longleftrightarrow> x AND msk = expect))"
proof -
  note t = mask_test_bits [OF assms(2)]
  show ?thesis
    unfolding t [of x] t [of y] by auto
qed

theorem mask_test_iff_fixed_bits_agree_witness:
  "length ''10aabbb-'' = LENGTH(8) \<and>
   GetMaskAndExpect ''10aabbb-'' = (0xC0 :: 8 word, 0x80) \<and>
   (0xAC :: 8 word) AND 0xC0 = 0x80 \<and>
   bit (0xAC :: 8 word) (LENGTH(8) - 1 - 0) \<and> \<not> bit (0xAC :: 8 word) (LENGTH(8) - 1 - 1) \<and>
   (0x93 :: 8 word) AND 0xC0 = 0x80"
proof -
  have len: "length ''10aabbb-'' = LENGTH(8)"
    by simp
  have res: "GetMaskAndExpect ''10aabbb-'' = (0xC0 :: 8 word, 0x80)"
    by code_simp
  have x: "(0xAC :: 8 word) AND 0xC0 = 0x80"
    by simp
  note t = mask_test_iff_fixed_bits_agree [OF len res, of "0xAC" "0x93"]
  from t x have fixed: "\<forall>i<LENGTH(8).
       (''10aabbb-'' ! i = CHR ''0'' \<longrightarrow> \<not> bit (0xAC :: 8 word) (LENGTH(8) - 1 - i)) \<and>
       (''10aabbb-'' ! i = CHR ''1'' \<longrightarrow> bit (0xAC :: 8 word) (LENGTH(8) - 1 - i))"
    by blast
  then have "0 < LENGTH(8) \<longrightarrow> (''10aabbb-'' ! 0 = CHR ''1'' \<longrightarrow> bit (0xAC :: 8 word) (LENGTH(8) - 1 - 0))"
    and "1 < LENGTH(8) \<longrightarrow> (''10aabbb-'' ! 1 = CHR ''0'' \<longrightarrow> \<not> bit (0xAC :: 8 word) (LENGTH(8) - 1 - 1))"
    by blast+
  then have bits: "bit (0xAC :: 8 word) (LENGTH(8) - 1 - 0)" "\<not> bit (0xAC :: 8 word) (LENGTH(8) - 1 - 1)"
    by simp_all
  have agree: "\<forall>i<LENGTH(8). ''10aabbb-'' ! i = CHR ''0'' \<or> ''10aabbb-'' ! i = CHR ''1'' \<longrightarrow>
       bit (0x93 :: 8 word) (LENGTH(8) - 1 - i) = bit (0xAC :: 8 word) (LENGTH(8) - 1 - i)"
  proof (intro allI impI)
    fix i assume "i < LENGTH(8)"
      and "''10aabbb-'' ! i = CHR ''0'' \<or> ''10aabbb-'' ! i = CHR ''1''"
    then have "i = 0 \<or> i = 1"
      by (simp add: nth_Cons' split: if_splits)
    then show "bit (0x93 :: 8 word) (LENGTH(8) - 1 - i) = bit (0xAC :: 8 word) (LENGTH(8) - 1 - i)"
      by auto
  qed
  with t x have y: "(0x93 :: 8 word) AND 0xC0 = 0x80"
    by blast
  from len res x bits y show ?thesis
    by blast
qed


section \<open>The field tables\<close>

subsection \<open>One iteration and the whole loop\<close>


declare GetArgInfo_loop.simps [simp del]

lemma GetArgInfo_body_fixed:
  assumes "\<not> is_field_marker (bs ! i)" and "(arg_index s, ch s) = cursor bs i"
  shows "\<exists>s'. GetArgInfo_body N bs i s = Inr s' \<and> (arg_index s', ch s') = cursor bs (Suc i) \<and>
           masks s' = masks s \<and> shifts s' = shifts s"
  using assms(1) assms(2) [symmetric]
  by (auto simp add: GetArgInfo_body_def is_field_marker_def)

lemma GetArgInfo_body_marker:
  fixes s :: "'a::len word arg_info_state"
  assumes "is_field_marker (bs ! i)" and "(arg_index s, ch s) = cursor bs i"
  shows "if N \<le> recorded_index bs i then GetArgInfo_body N bs i s = Inl OutOfRange
         else \<exists>s'. GetArgInfo_body N bs i s = Inr s' \<and>
           (arg_index s', ch s') = cursor bs (Suc i) \<and>
           masks s' = (masks s)[recorded_index bs i :=
              masks s ! recorded_index bs i OR push_bit (LENGTH('a) - 1 - i) 1] \<and>
           shifts s' = (shifts s)[recorded_index bs i := LENGTH('a) - 1 - i]"
  using assms(1) assms(2) [symmetric]
  by (auto simp add: GetArgInfo_body_def is_field_marker_def recorded_index_def Let_def)


lemma recorded_positions_step:
  "i < W \<Longrightarrow> recorded_positions W bs k i =
     (if is_field_marker (bs ! i) \<and> recorded_index bs i = k then [i] else []) @
     recorded_positions W bs k (Suc i)"
  by (simp add: recorded_positions_def upt_conv_Cons)

lemma recorded_positions_done: "W \<le> i \<Longrightarrow> recorded_positions W bs k i = []"
  by (simp add: recorded_positions_def)

lemma loop_post_skip:
  fixes s s1 :: "'a::len word arg_info_state"
  assumes "i < LENGTH('a)" and "\<not> is_field_marker (bs ! i)"
    and "masks s1 = masks s" and "shifts s1 = shifts s"
    and "loop_post N bs (Suc i) s1 r"
  shows "loop_post N bs i s r"
proof (cases r)
  case (Inl e)
  with assms(5) obtain j where "Suc i \<le> j" "j < LENGTH('a)" "is_field_marker (bs ! j)"
    "N \<le> recorded_index bs j" "e = OutOfRange"
    by (auto simp add: loop_post_def)
  then have "i \<le> j \<and> j < LENGTH('a) \<and> is_field_marker (bs ! j) \<and> N \<le> recorded_index bs j"
    by simp
  with Inl \<open>e = OutOfRange\<close> show ?thesis
    unfolding loop_post_def by auto
next
  case (Inr s')
  have "recorded_index bs j < N" if "i \<le> j" "j < LENGTH('a)" "is_field_marker (bs ! j)" for j
  proof -
    from that assms(2) have "j \<noteq> i" by auto
    with that have "Suc i \<le> j" by simp
    with that assms(5) Inr show ?thesis
      by (simp add: loop_post_def)
  qed
  with assms Inr show ?thesis
    by (simp add: loop_post_def recorded_positions_step [OF assms(1)])
qed

lemma loop_post_record:
  fixes s s1 :: "'a::len word arg_info_state"
  assumes "i < LENGTH('a)" and "is_field_marker (bs ! i)" and "recorded_index bs i < N"
    and "length (masks s) = N" and "length (shifts s) = N"
    and "masks s1 = (masks s)[recorded_index bs i :=
              masks s ! recorded_index bs i OR push_bit (LENGTH('a) - 1 - i) 1]"
    and "shifts s1 = (shifts s)[recorded_index bs i := LENGTH('a) - 1 - i]"
    and "loop_post N bs (Suc i) s1 r"
  shows "loop_post N bs i s r"
proof (cases r)
  case (Inl e)
  with assms(8) obtain j where "Suc i \<le> j" "j < LENGTH('a)" "is_field_marker (bs ! j)"
    "N \<le> recorded_index bs j" "e = OutOfRange"
    by (auto simp add: loop_post_def)
  then have "i \<le> j \<and> j < LENGTH('a) \<and> is_field_marker (bs ! j) \<and> N \<le> recorded_index bs j"
    by simp
  with Inl \<open>e = OutOfRange\<close> show ?thesis
    unfolding loop_post_def by auto
next
  case (Inr s')
  have idx: "recorded_index bs j < N" if "i \<le> j" "j < LENGTH('a)" "is_field_marker (bs ! j)" for j
  proof (cases "j = i")
    case True
    with assms(3) show ?thesis by simp
  next
    case False
    with that have "Suc i \<le> j" by simp
    with that assms(8) Inr show ?thesis
      by (simp add: loop_post_def)
  qed
  have upd: "masks s1 ! k = (if k = recorded_index bs i
              then masks s ! k OR push_bit (LENGTH('a) - 1 - i) 1 else masks s ! k)"
            "shifts s1 ! k = (if k = recorded_index bs i then LENGTH('a) - 1 - i else shifts s ! k)"
    if "k < N" for k
    using that assms(3-7) by auto
  from assms(8) Inr have post: "length (masks s') = N" "length (shifts s') = N"
    "\<And>k. k < N \<Longrightarrow> masks s' ! k =
                    fold (\<lambda>j m. m OR push_bit (LENGTH('a) - 1 - j) 1)
                      (recorded_positions LENGTH('a) bs k (Suc i)) (masks s1 ! k)"
    "\<And>k. k < N \<Longrightarrow> shifts s' ! k =
                    fold (\<lambda>j sh. LENGTH('a) - 1 - j)
                      (recorded_positions LENGTH('a) bs k (Suc i)) (shifts s1 ! k)"
    by (simp_all add: loop_post_def)
  have tabs: "masks s' ! k =
                    fold (\<lambda>j m. m OR push_bit (LENGTH('a) - 1 - j) 1)
                      (recorded_positions LENGTH('a) bs k i) (masks s ! k) \<and>
                  shifts s' ! k =
                    fold (\<lambda>j sh. LENGTH('a) - 1 - j)
                      (recorded_positions LENGTH('a) bs k i) (shifts s ! k)"
    if "k < N" for k
    using that assms(2) post(3,4) [OF that] upd [OF that]
    by (simp add: recorded_positions_step [OF assms(1)])
  from idx post(1,2) tabs Inr show ?thesis
    unfolding loop_post_def by simp
qed

lemma GetArgInfo_loop_result:
  fixes s :: "'a::len word arg_info_state"
  assumes "(arg_index s, ch s) = cursor bs i"
    and "length (masks s) = N" and "length (shifts s) = N"
  shows "loop_post N bs i s (GetArgInfo_loop N bs i s)"
  using assms
proof (induction N bs i s rule: GetArgInfo_loop.induct)
  case (1 N bs i s)
  show ?case
  proof (cases "i < LENGTH('a)")
    case False
    then show ?thesis
      using "1.prems"
      by (simp add: GetArgInfo_loop.simps [of N bs i] recorded_positions_done loop_post_def)
  next
    case True
    show ?thesis
    proof (cases "is_field_marker (bs ! i)")
      case False
      from GetArgInfo_body_fixed [OF False "1.prems"(1), of N]
      obtain s1 where body: "GetArgInfo_body N bs i s = Inr s1"
        and cur: "(arg_index s1, ch s1) = cursor bs (Suc i)"
        and tabs: "masks s1 = masks s" "shifts s1 = shifts s"
        by blast
      have loop: "GetArgInfo_loop N bs i s = GetArgInfo_loop N bs (i + 1) s1"
        using True body by (simp add: GetArgInfo_loop.simps [of N bs i])
      have "loop_post N bs (Suc i) s1 (GetArgInfo_loop N bs (i + 1) s1)"
        using "1.IH" [OF True body] cur tabs "1.prems" by simp
      from loop_post_skip [OF True False tabs this] loop show ?thesis
        by simp
    next
      case marker: True
      note b = GetArgInfo_body_marker [OF marker "1.prems"(1), of N]
      show ?thesis
      proof (cases "N \<le> recorded_index bs i")
        case True
        with b have "GetArgInfo_body N bs i s = Inl OutOfRange"
          by simp
        then have "GetArgInfo_loop N bs i s = Inl OutOfRange"
          using \<open>i < LENGTH('a)\<close> by (simp add: GetArgInfo_loop.simps [of N bs i])
        with True marker \<open>i < LENGTH('a)\<close> show ?thesis
          by (auto simp add: loop_post_def)
      next
        case False
        with b obtain s1 where body: "GetArgInfo_body N bs i s = Inr s1"
          and cur: "(arg_index s1, ch s1) = cursor bs (Suc i)"
          and m1: "masks s1 = (masks s)[recorded_index bs i :=
              masks s ! recorded_index bs i OR push_bit (LENGTH('a) - 1 - i) 1]"
          and s1: "shifts s1 = (shifts s)[recorded_index bs i := LENGTH('a) - 1 - i]"
          by auto
        have loop: "GetArgInfo_loop N bs i s = GetArgInfo_loop N bs (i + 1) s1"
          using True body by (simp add: GetArgInfo_loop.simps [of N bs i])
        have "loop_post N bs (Suc i) s1 (GetArgInfo_loop N bs (i + 1) s1)"
          using "1.IH" [OF True body] cur m1 s1 "1.prems" by simp
        from loop_post_record [OF True marker _ "1.prems"(2,3) m1 s1 this] False loop
        show ?thesis
          by simp
      qed
    qed
  qed
qed

subsection \<open>The cursor and the runs of the pattern\<close>


lemma runs_before_0: "runs_before bs 0 = 0"
  by (simp add: runs_before_def)

lemma runs_before_Suc:
  "runs_before bs (Suc i) = runs_before bs i + (if run_start bs i then 1 else 0)"
  by (simp add: runs_before_def)

lemma runs_before_mono: "i \<le> j \<Longrightarrow> runs_before bs i \<le> runs_before bs j"
  by (induction j) (auto simp add: runs_before_Suc le_Suc_eq)

lemma cursor_bound:
  "fst (cursor bs i) + (if 0 < i \<and> is_field_marker (bs ! (i - 1)) then 1 else 0) \<le> runs_before bs i \<and>
   (snd (cursor bs i) \<noteq> CHR 0x00 \<longrightarrow>
      0 < i \<and> is_field_marker (bs ! (i - 1)) \<and> snd (cursor bs i) = bs ! (i - 1))"
proof (induction i)
  case 0
  show ?case by (simp add: runs_before_0)
next
  case (Suc i)
  obtain a c where ac: "cursor bs i = (a, c)"
    by (cases "cursor bs i")
  show ?case
  proof (cases "is_field_marker (bs ! i)")
    case False
    with Suc ac show ?thesis
      by (auto simp add: runs_before_Suc is_field_marker_def)
  next
    case True
    then have m: "bs ! i \<noteq> CHR ''0''" "bs ! i \<noteq> CHR ''1''" "bs ! i \<noteq> CHR ''-''"
      by (simp_all add: is_field_marker_def)
    show ?thesis
    proof (cases "0 < i \<and> is_field_marker (bs ! (i - 1))")
      case inrun: True
      with Suc ac True m show ?thesis
        by (auto simp add: runs_before_Suc run_start_def)
    next
      case False
      with Suc ac have c: "c = CHR 0x00"
        by auto
      from False True have "run_start bs i"
        by (auto simp add: run_start_def)
      with Suc ac True m c False show ?thesis
        by (auto simp add: runs_before_Suc)
    qed
  qed
qed

lemma recorded_index_le_field_of:
  assumes "is_field_marker (bs ! j)"
  shows "recorded_index bs j \<le> field_of bs j"
  using cursor_bound [of bs "Suc j"] assms
  by (auto simp add: recorded_index_def field_of_def simp del: cursor.simps)

lemma cursor_exact:
  assumes "\<forall>j<i. bs ! j \<noteq> CHR 0x00"
  shows "cursor bs i =
     (if 0 < i \<and> is_field_marker (bs ! (i - 1)) then (runs_before bs i - 1, bs ! (i - 1))
      else (runs_before bs i, CHR 0x00)) \<and>
     (0 < i \<and> is_field_marker (bs ! (i - 1)) \<longrightarrow> 0 < runs_before bs i)"
  using assms
proof (induction i)
  case 0
  show ?case by (simp add: runs_before_0)
next
  case (Suc i)
  then have ih: "cursor bs i =
     (if 0 < i \<and> is_field_marker (bs ! (i - 1)) then (runs_before bs i - 1, bs ! (i - 1))
      else (runs_before bs i, CHR 0x00))"
     "0 < i \<and> is_field_marker (bs ! (i - 1)) \<longrightarrow> 0 < runs_before bs i"
    by simp_all
  from Suc.prems have nz: "bs ! i \<noteq> CHR 0x00" "0 < i \<Longrightarrow> bs ! (i - 1) \<noteq> CHR 0x00"
    by simp_all
  show ?case
  proof (cases "is_field_marker (bs ! i)")
    case False
    then have "\<not> run_start bs i"
      by (simp add: run_start_def)
    with False ih nz show ?thesis
      by (auto simp add: runs_before_Suc is_field_marker_def)
  next
    case True
    then have m: "bs ! i \<noteq> CHR ''0''" "bs ! i \<noteq> CHR ''1''" "bs ! i \<noteq> CHR ''-''"
      by (simp_all add: is_field_marker_def)
    show ?thesis
    proof (cases "0 < i \<and> is_field_marker (bs ! (i - 1))")
      case inrun: True
      with ih True m nz show ?thesis
        by (auto simp add: runs_before_Suc run_start_def)
    next
      case False
      with True have "run_start bs i"
        by (auto simp add: run_start_def)
      with ih True m False show ?thesis
        by (auto simp add: runs_before_Suc)
    qed
  qed
qed

lemma recorded_index_eq_field_of:
  assumes "is_field_marker (bs ! j)" and "\<forall>i\<le>j. bs ! i \<noteq> CHR 0x00"
  shows "recorded_index bs j = field_of bs j"
proof -
  from assms(2) have "\<forall>i<Suc j. bs ! i \<noteq> CHR 0x00"
    by (simp add: less_Suc_eq_le)
  from cursor_exact [OF this] assms(1) show ?thesis
    by (simp add: recorded_index_def field_of_def del: cursor.simps)
qed


lemma runs_before_marker_pos:
  assumes "is_field_marker (bs ! j)"
  shows "0 < runs_before bs (Suc j)"
  using cursor_bound [of bs "Suc j"] assms by (auto simp del: cursor.simps)

lemma field_of_less_count:
  assumes "is_field_marker (bs ! j)" and "j < length bs"
  shows "field_of bs j < field_count bs"
proof -
  from assms(2) have "runs_before bs (Suc j) \<le> runs_before bs (length bs)"
    by (intro runs_before_mono) simp
  with runs_before_marker_pos [OF assms(1)] show ?thesis
    by (simp add: field_of_def field_count_def)
qed

lemma run_start_exists:
  "k < runs_before bs n \<Longrightarrow> \<exists>j<n. run_start bs j \<and> runs_before bs j = k"
proof (induction n)
  case 0
  then show ?case by (simp add: runs_before_0)
next
  case (Suc n)
  show ?case
  proof (cases "k < runs_before bs n")
    case True
    with Suc.IH obtain j where "j < n" "run_start bs j" "runs_before bs j = k"
      by blast
    then show ?thesis
      by (auto intro: exI [of _ j])
  next
    case False
    with Suc.prems have "run_start bs n" "runs_before bs n = k"
      by (auto simp add: runs_before_Suc split: if_splits)
    then show ?thesis
      by blast
  qed
qed

lemma field_exists:
  assumes "k < field_count bs"
  shows "\<exists>j<length bs. is_field_marker (bs ! j) \<and> field_of bs j = k"
proof -
  from run_start_exists [OF assms [unfolded field_count_def]]
  obtain j where "j < length bs" "run_start bs j" "runs_before bs j = k"
    by blast
  then have "is_field_marker (bs ! j) \<and> field_of bs j = k"
    by (simp add: field_of_def runs_before_Suc run_start_def)
  with \<open>j < length bs\<close> show ?thesis
    by blast
qed

lemma field_positions_nonempty:
  assumes "k < field_count bs"
  shows "field_positions bs k \<noteq> []"
proof -
  from field_exists [OF assms] obtain j where "j < length bs"
    "is_field_marker (bs ! j)" "field_of bs j = k"
    by blast
  then have "j \<in> set (field_positions bs k)"
    by (simp add: field_positions_def)
  then show ?thesis
    by auto
qed

lemma set_field_positions:
  "j \<in> set (field_positions bs k) \<longleftrightarrow>
     j < length bs \<and> is_field_marker (bs ! j) \<and> field_of bs j = k"
  by (auto simp add: field_positions_def)

lemma bit_fold_or:
  fixes m0 :: "'a::len word"
  shows "bit (fold (\<lambda>j m. m OR push_bit (LENGTH('a) - 1 - j) 1) xs m0) p \<longleftrightarrow>
     bit m0 p \<or> (\<exists>j\<in>set xs. p = LENGTH('a) - 1 - j)"
proof (induction xs arbitrary: m0)
  case Nil
  show ?case by simp
next
  case (Cons x xs)
  have "LENGTH('a) - 1 - x < LENGTH('a)"
    by (simp add: less_imp_diff_less)
  then show ?case
    unfolding fold_simps Cons.IH bit_or_iff bit_push_bit_one by auto
qed

lemma fold_overwrite:
  "fold (\<lambda>j sh. h j) xs s0 = (if xs = [] then s0 else h (last xs))"
  by (induction xs arbitrary: s0) auto

lemma recorded_positions_eq_field_positions:
  assumes "length bs = W" and "CHR 0x00 \<notin> set bs"
  shows "recorded_positions W bs k 0 = field_positions bs k"
proof -
  have "recorded_index bs j = field_of bs j" if "j < W" "is_field_marker (bs ! j)" for j
  proof (rule recorded_index_eq_field_of [OF that(2)])
    show "\<forall>i\<le>j. bs ! i \<noteq> CHR 0x00"
      using that(1) assms by (metis le_less_trans nth_mem)
  qed
  then show ?thesis
    unfolding recorded_positions_def field_positions_def assms(1)
    by (intro filter_cong) auto
qed

subsection \<open>The result of \<^verbatim>\<open>GetArgInfo\<close>\<close>


lemma GetArgInfo_loop_init:
  "loop_post N bs 0 (arg_info_init N :: 'a::len word arg_info_state)
     (GetArgInfo_loop N bs 0 (arg_info_init N))"
  by (rule GetArgInfo_loop_result) (simp_all add: arg_info_init_def)

lemma GetArgInfo_unfold:
  "GetArgInfo ignore_asserts N bs =
     (case GetArgInfo_loop N bs 0 (arg_info_init N) of
        Inl e \<Rightarrow> Inl e
      | Inr s \<Rightarrow> if ignore_asserts \<or> list_all (\<lambda>m. m \<noteq> 0) (masks s)
                 then Inr (masks s, shifts s) else Inl AssertionFailed)"
  by (simp add: GetArgInfo_def arg_info_init_def ASSERT_def split: sum.splits)

lemma field_mask_nonzero:
  assumes "k < field_count bs"
  shows "(field_mask bs k :: 'a::len word) \<noteq> 0"
proof -
  from field_positions_nonempty [OF assms] obtain j where "j \<in> set (field_positions bs k)"
    by (cases "field_positions bs k") auto
  then have "bit (field_mask bs k :: 'a word) (LENGTH('a) - 1 - j)"
    unfolding field_mask_def bit_fold_or by blast
  then show ?thesis
    by auto
qed

lemma GetArgInfo_loop_too_many:
  assumes "length bs = LENGTH('a::len)" and "CHR 0x00 \<notin> set bs" and "N < field_count bs"
  shows "GetArgInfo_loop N bs 0 (arg_info_init N :: 'a word arg_info_state) = Inl OutOfRange"
proof -
  from field_exists [OF assms(3)] obtain j where j: "j < length bs"
    "is_field_marker (bs ! j)" "field_of bs j = N"
    by blast
  have "\<forall>i\<le>j. bs ! i \<noteq> CHR 0x00"
    using j(1) assms(2) by (metis le_less_trans nth_mem)
  from recorded_index_eq_field_of [OF j(2) this] j(3) have "recorded_index bs j = N"
    by simp
  with j assms(1) GetArgInfo_loop_init [of N bs, where 'a = 'a] show ?thesis
    by (auto simp add: loop_post_def split: sum.splits)
qed

lemma GetArgInfo_loop_exact:
  assumes "length bs = LENGTH('a::len)" and "CHR 0x00 \<notin> set bs" and "field_count bs \<le> N"
  shows "\<exists>s'. GetArgInfo_loop N bs 0 (arg_info_init N :: 'a word arg_info_state) = Inr s' \<and>
           masks s' = map (field_mask bs) [0..<N] \<and>
           shifts s' = map (\<lambda>k. if field_positions bs k = [] then 0
                                  else field_shift LENGTH('a) bs k) [0..<N]"
proof (cases "GetArgInfo_loop N bs 0 (arg_info_init N :: 'a word arg_info_state)")
  case (Inl e)
  with GetArgInfo_loop_init [of N bs, where 'a = 'a]
  obtain j where j: "j < LENGTH('a)" "is_field_marker (bs ! j)" "N \<le> recorded_index bs j"
    by (auto simp add: loop_post_def)
  have "\<forall>i\<le>j. bs ! i \<noteq> CHR 0x00"
    using j(1) assms(1,2) by (metis le_less_trans nth_mem)
  from recorded_index_eq_field_of [OF j(2) this] j(3) have "N \<le> field_of bs j"
    by simp
  with field_of_less_count [OF j(2)] j(1) assms(1,3) have False
    by simp
  then show ?thesis ..
next
  case (Inr s')
  with GetArgInfo_loop_init [of N bs, where 'a = 'a]
  have len: "length (masks s') = N" "length (shifts s') = N"
    and tabs: "\<And>k. k < N \<Longrightarrow> masks s' ! k =
                    fold (\<lambda>j m. m OR push_bit (LENGTH('a) - 1 - j) 1)
                      (recorded_positions LENGTH('a) bs k 0) 0"
      "\<And>k. k < N \<Longrightarrow> shifts s' ! k =
                    fold (\<lambda>j sh. LENGTH('a) - 1 - j)
                      (recorded_positions LENGTH('a) bs k 0) 0"
    by (simp_all add: loop_post_def arg_info_init_def)
  note pos = recorded_positions_eq_field_positions [OF assms(1,2)]
  have "masks s' = map (field_mask bs) [0..<N]"
    using len(1) tabs(1) by (intro nth_equalityI) (simp_all add: pos field_mask_def)
  moreover have "shifts s' = map (\<lambda>k. if field_positions bs k = [] then 0
                                  else field_shift LENGTH('a) bs k) [0..<N]"
    using len(2) tabs(2)
    by (intro nth_equalityI) (simp_all add: pos field_shift_def fold_overwrite)
  ultimately show ?thesis
    using Inr by simp
qed

lemma GetArgInfo_exact:
  assumes "length bs = LENGTH('a::len)" and "CHR 0x00 \<notin> set bs" and "field_count bs = N"
  shows "GetArgInfo ignore_asserts N bs =
     Inr (map (field_mask bs) [0..<N] :: 'a word list, map (field_shift LENGTH('a) bs) [0..<N])"
proof -
  from GetArgInfo_loop_exact [OF assms(1,2), of N] assms(3)
  obtain s' where loop: "GetArgInfo_loop N bs 0 (arg_info_init N :: 'a word arg_info_state) = Inr s'"
    and m: "masks s' = map (field_mask bs) [0..<N]"
    and sh: "shifts s' = map (\<lambda>k. if field_positions bs k = [] then 0
                                  else field_shift LENGTH('a) bs k) [0..<N]"
    by auto
  have "list_all (\<lambda>m. m \<noteq> 0) (masks s')"
    unfolding m using field_mask_nonzero [of _ bs, where 'a = 'a] assms(3)
    by (simp add: list_all_iff)
  moreover have "shifts s' = map (field_shift LENGTH('a) bs) [0..<N]"
    unfolding sh using field_positions_nonempty [of _ bs] assms(3) by simp
  ultimately show ?thesis
    using loop m by (simp add: GetArgInfo_unfold)
qed

lemma GetArgInfo_too_many:
  assumes "length bs = LENGTH('a::len)" and "CHR 0x00 \<notin> set bs" and "N < field_count bs"
  shows "(GetArgInfo ignore_asserts N bs :: error + 'a word list \<times> nat list) = Inl OutOfRange"
  using GetArgInfo_loop_too_many [OF assms] by (simp add: GetArgInfo_unfold)

lemma GetArgInfo_loop_too_few:
  assumes "length bs = LENGTH('a::len)" and "field_count bs < N"
  shows "\<exists>s'. GetArgInfo_loop N bs 0 (arg_info_init N :: 'a word arg_info_state) = Inr s' \<and>
           length (masks s') = N \<and> length (shifts s') = N \<and>
           (\<forall>k<N. field_count bs \<le> k \<longrightarrow> masks s' ! k = 0)"
proof (cases "GetArgInfo_loop N bs 0 (arg_info_init N :: 'a word arg_info_state)")
  case (Inl e)
  with GetArgInfo_loop_init [of N bs, where 'a = 'a]
  obtain j where j: "j < LENGTH('a)" "is_field_marker (bs ! j)" "N \<le> recorded_index bs j"
    by (auto simp add: loop_post_def)
  with recorded_index_le_field_of [OF j(2)] field_of_less_count [OF j(2)] assms have False
    by simp
  then show ?thesis ..
next
  case (Inr s')
  with GetArgInfo_loop_init [of N bs, where 'a = 'a]
  have len: "length (masks s') = N" "length (shifts s') = N"
    and tabs: "\<And>k. k < N \<Longrightarrow> masks s' ! k =
                    fold (\<lambda>j m. m OR push_bit (LENGTH('a) - 1 - j) 1)
                      (recorded_positions LENGTH('a) bs k 0) 0"
    by (simp_all add: loop_post_def arg_info_init_def)
  have "masks s' ! k = 0" if "k < N" "field_count bs \<le> k" for k
  proof -
    have "recorded_positions LENGTH('a) bs k 0 = []"
      unfolding recorded_positions_def filter_empty_conv
    proof
      fix j assume "j \<in> set [0..<LENGTH('a)]"
      then have "j < length bs" using assms(1) by simp
      show "\<not> (is_field_marker (bs ! j) \<and> recorded_index bs j = k)"
      proof
        assume a: "is_field_marker (bs ! j) \<and> recorded_index bs j = k"
        with recorded_index_le_field_of [of bs j] field_of_less_count [of bs j] \<open>j < length bs\<close>
        have "k < field_count bs" by simp
        with that(2) show False by simp
      qed
    qed
    with tabs [OF that(1)] show ?thesis by simp
  qed
  with len Inr show ?thesis by simp
qed

lemma GetArgInfo_too_few:
  assumes "length bs = LENGTH('a::len)" and "field_count bs < N"
  shows "(GetArgInfo False N bs :: error + 'a word list \<times> nat list) = Inl AssertionFailed"
    and "\<exists>ms shs. GetArgInfo True N bs = Inr (ms :: 'a word list, shs) \<and> length ms = N \<and>
           length shs = N \<and> (\<forall>k<N. field_count bs \<le> k \<longrightarrow> ms ! k = 0)"
proof -
  from GetArgInfo_loop_too_few [OF assms]
  obtain s' where loop: "GetArgInfo_loop N bs 0 (arg_info_init N :: 'a word arg_info_state) = Inr s'"
    and len: "length (masks s') = N" "length (shifts s') = N"
    and z: "\<forall>k<N. field_count bs \<le> k \<longrightarrow> masks s' ! k = 0"
    by blast
  from assms(2) z have "masks s' ! (N - 1) = 0" "N - 1 < N"
    by simp_all
  with len(1) have "\<not> list_all (\<lambda>m. m \<noteq> 0) (masks s')"
    by (auto simp add: list_all_length)
  with loop show "(GetArgInfo False N bs :: error + 'a word list \<times> nat list) = Inl AssertionFailed"
    by (simp add: GetArgInfo_unfold)
  from loop len z
  show "\<exists>ms shs. GetArgInfo True N bs = Inr (ms :: 'a word list, shs) \<and> length ms = N \<and>
           length shs = N \<and> (\<forall>k<N. field_count bs \<le> k \<longrightarrow> ms ! k = 0)"
    by (simp add: GetArgInfo_unfold)
qed

lemma GetArgInfo_no_arity:
  assumes "length bs = LENGTH('a::len)" and "0 < field_count bs"
  shows "(GetArgInfo ignore_asserts 0 bs :: error + 'a word list \<times> nat list) = Inl OutOfRange"
proof -
  from field_exists [OF assms(2)] obtain j where "j < length bs" "is_field_marker (bs ! j)"
    by blast
  with assms(1) GetArgInfo_loop_init [of 0 bs, where 'a = 'a]
  have "GetArgInfo_loop 0 bs 0 (arg_info_init 0 :: 'a word arg_info_state) = Inl OutOfRange"
    by (auto simp add: loop_post_def split: sum.splits)
  then show ?thesis
    by (simp add: GetArgInfo_unfold)
qed

lemma marker_field_count:
  assumes "i < length bs" and "is_field_marker (bs ! i)"
  shows "0 < field_count bs"
  using field_of_less_count [OF assms(2,1)] by simp


subsection \<open>Field indices, single fields and the dispatch\<close>

lemma bit_field_mask:
  assumes "j < LENGTH('a::len)" and "length bs = LENGTH('a)"
  shows "bit (field_mask bs k :: 'a word) (LENGTH('a) - 1 - j) \<longleftrightarrow>
           is_field_marker (bs ! j) \<and> field_of bs j = k"
proof -
  have "LENGTH('a) - 1 - j = LENGTH('a) - 1 - j' \<longleftrightarrow> j = j'" if "j' < LENGTH('a)" for j'
    using that assms(1) by auto
  then show ?thesis
    unfolding field_mask_def bit_fold_or using assms
    by (auto simp add: set_field_positions)
qed

lemma find_snoc:
  "find P (xs @ [x]) = (case find P xs of None \<Rightarrow> (if P x then Some x else None) | Some y \<Rightarrow> Some y)"
  by (induction xs) auto

lemma find_eq_index:
  assumes "k < n"
  shows "find (\<lambda>i. i = k) [0..<n] = Some k"
  using assms
proof (induction n)
  case 0
  then show ?case by simp
next
  case (Suc n)
  show ?case
  proof (cases "k < n")
    case True
    with Suc.IH show ?thesis
      by (simp add: find_snoc)
  next
    case False
    with Suc.prems have "k = n" by simp
    moreover have "find (\<lambda>i. i = n) [0..<n] = None"
      by (simp add: find_None_iff)
    ultimately show ?thesis
      by (simp add: find_snoc)
  qed
qed

lemma index_at_field_masks:
  assumes "j < LENGTH('a::len)" and "length bs = LENGTH('a)" and "is_field_marker (bs ! j)"
    and "field_count bs \<le> N"
  shows "index_at (map (field_mask bs) [0..<N] :: 'a word list) (LENGTH('a) - 1 - j)
           = Some (field_of bs j)"
proof -
  from field_of_less_count [OF assms(3)] assms have lt: "field_of bs j < N"
    by simp
  have "find (\<lambda>k. bit (map (field_mask bs) [0..<N] ! k :: 'a word) (LENGTH('a) - 1 - j)) [0..<N]
          = find (\<lambda>k. k = field_of bs j) [0..<N]"
  proof (rule find_cong)
    fix k assume "k \<in> set [0..<N]"
    then have "map (field_mask bs) [0..<N] ! k = (field_mask bs k :: 'a word)"
      by simp
    moreover have "bit (field_mask bs k :: 'a word) (LENGTH('a) - 1 - j) \<longleftrightarrow> k = field_of bs j"
      using bit_field_mask [OF assms(1,2), of k] assms(3) by blast
    ultimately show "bit (map (field_mask bs) [0..<N] ! k :: 'a word) (LENGTH('a) - 1 - j)
        \<longleftrightarrow> k = field_of bs j"
      by (simp only:)
  qed simp
  then show ?thesis
    using find_eq_index [OF lt] by (simp add: index_at_def)
qed

lemma GetArgInfo_returns_field_masks:
  assumes "length bs = LENGTH('a::len)" and "CHR 0x00 \<notin> set bs"
    and "GetArgInfo ignore_asserts N bs = Inr (ms :: 'a word list, shs)"
  shows "field_count bs \<le> N" and "ms = map (field_mask bs) [0..<N]"
proof -
  show le: "field_count bs \<le> N"
  proof (rule ccontr)
    assume "\<not> field_count bs \<le> N"
    then have "N < field_count bs" by simp
    from GetArgInfo_too_many [OF assms(1,2) this, of ignore_asserts] assms(3)
    show False by simp
  qed
  from GetArgInfo_loop_exact [OF assms(1,2) le] assms(3)
  show "ms = map (field_mask bs) [0..<N]"
    by (auto simp add: GetArgInfo_unfold split: if_splits)
qed

lemma field_of_run_start:
  "run_start bs j \<Longrightarrow> field_of bs j = runs_before bs j"
  by (simp add: field_of_def runs_before_Suc)

lemma field_of_run_starts:
  "map (field_of bs) (filter (run_start bs) [0..<n]) = [0..<runs_before bs n]"
  by (induction n) (auto simp add: runs_before_0 runs_before_Suc field_of_run_start)

lemma field_of_adjacent:
  assumes "is_field_marker (bs ! i)" and "is_field_marker (bs ! Suc i)" and "bs ! i \<noteq> bs ! Suc i"
  shows "field_of bs (Suc i) = Suc (field_of bs i)"
proof -
  from assms have "run_start bs (Suc i)"
    by (simp add: run_start_def)
  with runs_before_marker_pos [OF assms(1)] show ?thesis
    by (simp add: field_of_def runs_before_Suc)
qed

lemma runs_before_after_separator:
  assumes "\<not> is_field_marker (bs ! f)" and "f < j" and "is_field_marker (bs ! j)"
  shows "runs_before bs (Suc f) < runs_before bs (Suc j)"
  using assms(2,3)
proof (induction j)
  case 0
  then show ?case by simp
next
  case (Suc j)
  show ?case
  proof (cases "is_field_marker (bs ! j)")
    case True
    with Suc.prems assms(1) have "f < j"
      by (cases "f = j") auto
    from Suc.IH [OF this True] show ?thesis
      by (simp add: runs_before_Suc [of bs "Suc j"])
  next
    case False
    with Suc.prems have "run_start bs (Suc j)"
      by (auto simp add: run_start_def)
    moreover from Suc.prems have "runs_before bs (Suc f) \<le> runs_before bs (Suc j)"
      by (intro runs_before_mono) simp
    ultimately show ?thesis
      by (simp add: runs_before_Suc [of bs "Suc j"])
  qed
qed

lemma field_of_separated:
  assumes "is_field_marker (bs ! i)" and "i < f" and "\<not> is_field_marker (bs ! f)"
    and "f < j" and "is_field_marker (bs ! j)"
  shows "field_of bs i < field_of bs j"
proof -
  from assms(2) have "runs_before bs (Suc i) \<le> runs_before bs (Suc f)"
    by (intro runs_before_mono) simp
  with runs_before_after_separator [OF assms(3,4,5)] runs_before_marker_pos [OF assms(1)]
  show ?thesis
    by (simp add: field_of_def)
qed

lemma field_positions_sorted: "sorted (field_positions bs k)" "distinct (field_positions bs k)"
  by (simp_all add: field_positions_def sorted_wrt_filter)

lemma single_field_of:
  assumes "field_count bs = 1" and "j < length bs" and "is_field_marker (bs ! j)"
  shows "field_of bs j = 0" and "recorded_index bs j = 0"
proof -
  from field_of_less_count [OF assms(3,2)] assms(1) show "field_of bs j = 0"
    by simp
  with recorded_index_le_field_of [OF assms(3)] show "recorded_index bs j = 0"
    by simp
qed

lemma single_field_contiguous:
  assumes "field_count bs = 1"
  shows "\<exists>a b. a \<le> b \<and> b < length bs \<and> field_positions bs 0 = [a..<Suc b]"
proof -
  let ?M = "set (field_positions bs 0)"
  have M: "j \<in> ?M \<longleftrightarrow> j < length bs \<and> is_field_marker (bs ! j)" for j
    using single_field_of(1) [OF assms, of j] by (auto simp add: set_field_positions)
  from field_positions_nonempty [of 0 bs] assms have ne: "?M \<noteq> {}"
    by simp
  define a where "a = Min ?M"
  define b where "b = Max ?M"
  have a: "a \<in> ?M" and b: "b \<in> ?M"
    using ne by (simp_all add: a_def b_def)
  have ab: "a \<le> j \<and> j \<le> b" if "j \<in> ?M" for j
    using that by (simp add: a_def b_def)
  have mid: "j \<in> ?M" if "a \<le> j" "j \<le> b" for j
  proof (rule ccontr)
    assume n: "j \<notin> ?M"
    from b that have "j < length bs"
      by (simp add: M)
    with n have nm: "\<not> is_field_marker (bs ! j)"
      by (simp add: M)
    from n a b have "j \<noteq> a" "j \<noteq> b"
      by auto
    with that have "a < j" "j < b"
      by simp_all
    from b have bm: "is_field_marker (bs ! b)" "b < length bs"
      by (simp_all add: M)
    from a have am: "is_field_marker (bs ! a)"
      by (simp add: M)
    have "runs_before bs (Suc a) \<le> runs_before bs (Suc j)"
      using \<open>a < j\<close> by (intro runs_before_mono) simp
    moreover note runs_before_marker_pos [OF am] runs_before_after_separator [OF nm \<open>j < b\<close> bm(1)]
    moreover have "runs_before bs (Suc b) \<le> runs_before bs (length bs)"
      using bm(2) by (intro runs_before_mono) simp
    ultimately show False
      using assms unfolding field_count_def by linarith
  qed
  have "?M = set [a..<Suc b]"
  proof (rule set_eqI)
    fix j
    have "j \<in> set [a..<Suc b] \<longleftrightarrow> a \<le> j \<and> j \<le> b"
      by auto
    with ab [of j] mid [of j] show "j \<in> ?M \<longleftrightarrow> j \<in> set [a..<Suc b]"
      by blast
  qed
  then have "field_positions bs 0 = [a..<Suc b]"
    by (intro sorted_distinct_set_unique field_positions_sorted sorted_upt distinct_upt)
  moreover from ab [OF b] have "a \<le> b"
    by simp
  moreover from b have "b < length bs"
    by (simp add: M)
  ultimately show ?thesis
    by blast
qed

lemma GetArgInfo_single_field:
  assumes "length bs = LENGTH('a::len)" and "field_count bs = 1"
  shows "GetArgInfo ignore_asserts 1 bs =
           Inr ([field_mask bs 0 :: 'a word], [field_shift LENGTH('a) bs 0])"
proof -
  have rec: "recorded_positions LENGTH('a) bs 0 0 = field_positions bs 0"
    unfolding recorded_positions_def field_positions_def assms(1)
    using single_field_of [OF assms(2)] assms(1) by (intro filter_cong) auto
  have ne: "field_positions bs 0 \<noteq> []"
    using field_positions_nonempty [of 0 bs] assms(2) by simp
  note post = GetArgInfo_loop_init [of 1 bs, where 'a = 'a]
  show ?thesis
  proof (cases "GetArgInfo_loop 1 bs 0 (arg_info_init 1 :: 'a word arg_info_state)")
    case (Inl e)
    with post obtain j where "j < LENGTH('a)" "is_field_marker (bs ! j)" "1 \<le> recorded_index bs j"
      by (auto simp add: loop_post_def)
    with single_field_of(2) [OF assms(2), of j] assms(1) have False
      by simp
    then show ?thesis ..
  next
    case (Inr s')
    with post have len: "length (masks s') = 1" "length (shifts s') = 1"
      and m: "masks s' ! 0 = field_mask bs 0"
      and sh: "shifts s' ! 0 = field_shift LENGTH('a) bs 0"
      using ne by (simp_all add: loop_post_def arg_info_init_def rec field_mask_def
          field_shift_def fold_overwrite)
    from len m have ms: "masks s' = [field_mask bs 0]"
      by (cases "masks s'") simp_all
    from len sh have shs: "shifts s' = [field_shift LENGTH('a) bs 0]"
      by (cases "shifts s'") simp_all
    from field_mask_nonzero [of 0 bs, where 'a = 'a] assms(2) have "(field_mask bs 0 :: 'a word) \<noteq> 0"
      by simp
    with Inr ms shs show ?thesis
      by (simp add: GetArgInfo_unfold)
  qed
qed

lemma single_field_mask_bits:
  assumes "length bs = LENGTH('a::len)" and "field_count bs = 1"
  shows "field_shift LENGTH('a) bs 0 + length (field_positions bs 0) \<le> LENGTH('a)"
    and "bit (field_mask bs 0 :: 'a word) p \<longleftrightarrow>
           field_shift LENGTH('a) bs 0 \<le> p \<and>
           p < field_shift LENGTH('a) bs 0 + length (field_positions bs 0)"
proof -
  from single_field_contiguous [OF assms(2)] assms(1)
  obtain a b where ab: "a \<le> b" "b < LENGTH('a)" and pos: "field_positions bs 0 = [a..<Suc b]"
    by auto
  have sh: "field_shift LENGTH('a) bs 0 = LENGTH('a) - 1 - b"
    using ab by (simp add: field_shift_def pos)
  have n: "length (field_positions bs 0) = Suc b - a"
    using ab by (simp add: pos Suc_diff_le)
  show "field_shift LENGTH('a) bs 0 + length (field_positions bs 0) \<le> LENGTH('a)"
    unfolding sh n using ab by simp
  have "(\<exists>j\<in>set [a..<Suc b]. p = LENGTH('a) - 1 - j) \<longleftrightarrow>
          LENGTH('a) - 1 - b \<le> p \<and> p < LENGTH('a) - 1 - b + (Suc b - a)"
  proof
    assume "\<exists>j\<in>set [a..<Suc b]. p = LENGTH('a) - 1 - j"
    then show "LENGTH('a) - 1 - b \<le> p \<and> p < LENGTH('a) - 1 - b + (Suc b - a)"
      using ab by auto
  next
    assume r: "LENGTH('a) - 1 - b \<le> p \<and> p < LENGTH('a) - 1 - b + (Suc b - a)"
    with ab have "LENGTH('a) - 1 - p \<in> set [a..<Suc b]" "p = LENGTH('a) - 1 - (LENGTH('a) - 1 - p)"
      by auto
    then show "\<exists>j\<in>set [a..<Suc b]. p = LENGTH('a) - 1 - j" ..
  qed
  moreover have "\<not> bit (0 :: 'a word) p"
    by simp
  moreover have "length [a..<Suc b] = Suc b - a"
    by (simp only: length_upt)
  ultimately show "bit (field_mask bs 0 :: 'a word) p \<longleftrightarrow>
           field_shift LENGTH('a) bs 0 \<le> p \<and>
           p < field_shift LENGTH('a) bs 0 + length (field_positions bs 0)"
    unfolding sh field_mask_def bit_fold_or pos by (simp only:) blast
qed

lemma bit_less_exp:
  fixes v :: "'a::len word"
  assumes "unat v < 2 ^ n" and "bit v q"
  shows "q < n"
proof -
  from assms(1) have "take_bit n (unat v) = unat v"
    by (simp add: take_bit_nat_eq_self)
  moreover from assms(2) have "bit (unat v) q"
    by (simp add: bit_unsigned_iff)
  ultimately have "bit (take_bit n (unat v)) q"
    by simp
  then show ?thesis
    by (simp add: bit_take_bit_iff)
qed

lemma field_round_trip:
  fixes m v x :: "'a::len word"
  assumes le: "s + n \<le> LENGTH('a)"
    and m: "\<And>p. bit m p \<longleftrightarrow> s \<le> p \<and> p < s + n"
    and v: "unat v < 2 ^ n"
  shows "((x AND NOT m) OR push_bit s v) AND m = push_bit s v"
    and "y AND m = push_bit s v \<Longrightarrow> drop_bit s (y AND m) = v"
proof -
  show "((x AND NOT m) OR push_bit s v) AND m = push_bit s v"
  proof (rule bit_word_eqI)
    fix p assume "p < LENGTH('a)"
    have "bit (push_bit s v) p \<Longrightarrow> bit m p"
      using bit_less_exp [OF v, of "p - s"] by (auto simp add: bit_push_bit_iff m)
    then show "bit (((x AND NOT m) OR push_bit s v) AND m) p \<longleftrightarrow> bit (push_bit s v) p"
      by (auto simp add: bit_and_iff bit_or_iff bit_not_iff)
  qed
  have "drop_bit s (push_bit s v) = v"
  proof (rule bit_word_eqI)
    fix q assume q: "q < LENGTH('a)"
    show "bit (drop_bit s (push_bit s v)) q \<longleftrightarrow> bit v q"
    proof (cases "bit v q")
      case True
      from bit_less_exp [OF v True] le have "s + q < LENGTH('a)"
        by simp
      with True show ?thesis
        by (simp add: bit_drop_bit_eq bit_push_bit_iff)
    next
      case False
      then show ?thesis
        by (simp add: bit_drop_bit_eq bit_push_bit_iff)
    qed
  qed
  then show "y AND m = push_bit s v \<Longrightarrow> drop_bit s (y AND m) = v"
    by simp
qed

lemma Make_tables:
  fixes ms :: "'a::len word list"
  assumes "length ms = length Args" and "length shs = length Args"
    and "\<forall>i<length Args. shs ! i < max LENGTH('a) int_bits"
  shows "Make int_bits Args [0..<length Args] fn ms shs v x =
           Some (fn v (map (\<lambda>i. (Args ! i) (drop_bit (shs ! i) (x AND ms ! i)))
                         [0..<length Args]))"
proof -
  have "list_all (shift_defined int_bits ms shs) [0..<length Args]"
    using assms by (simp add: list_all_iff shift_defined_def)
  moreover have "map2 (\<lambda>static_cast i. static_cast (drop_bit (shs ! i) (x AND ms ! i)))
          Args [0..<length Args] =
        map (\<lambda>i. (Args ! i) (drop_bit (shs ! i) (x AND ms ! i))) [0..<length Args]"
    by (intro nth_equalityI) (simp_all del: drop_bit_and)
  ultimately show ?thesis
    by (simp only: Make_def if_True)
qed

lemma Make_fields:
  fixes fields :: "('a::len word \<times> nat) list"
  assumes "length Args = length fields"
    and "\<forall>i<length fields. snd (fields ! i) < max LENGTH('a) int_bits"
  shows "Make int_bits Args [0..<length Args] fn (map fst fields) (map snd fields) v x =
           Some (fn v (map2 (\<lambda>static_cast (m, s). static_cast (drop_bit s (x AND m)))
                         Args fields))"
proof -
  have "list_all (shift_defined int_bits (map fst fields) (map snd fields)) [0..<length Args]"
    using assms by (simp add: list_all_iff shift_defined_def)
  moreover have "map2 (\<lambda>static_cast i.
            static_cast (drop_bit (map snd fields ! i) (x AND map fst fields ! i)))
          Args [0..<length Args] =
        map2 (\<lambda>static_cast (m, s). static_cast (drop_bit s (x AND m))) Args fields"
    using assms(1) by (intro nth_equalityI) (simp_all add: case_prod_unfold del: drop_bit_and)
  ultimately show ?thesis
    by (simp only: Make_def if_True)
qed

lemma GetMatcher_fn:
  "matcher_fn (GetMatcher int_bits Args fn name mask_and_expect (ms, shs)) =
     Make int_bits Args [0..<length Args] fn ms shs"
  by (simp add: GetMatcher_def Let_def case_prod_unfold)

lemma extract_zero_extended:
  fixes x m :: "'a::len word"
  shows "unat (drop_bit s (x AND m)) = (unat x AND unat m) div 2 ^ s"
proof -
  have "unat (drop_bit s (x AND m)) = drop_bit s (unat (x AND m))"
    by (rule unat_drop_bit_eq)
  also have "\<dots> = drop_bit s (unat x AND unat m)"
    by (simp only: unsigned_and_eq)
  also have "\<dots> = (unat x AND unat m) div 2 ^ s"
    by (rule drop_bit_eq_div)
  finally show ?thesis .
qed

lemma GetArgInfo_shifts_bounded:
  assumes "GetArgInfo ignore_asserts N bs = Inr (ms :: 'a::len word list, shs)"
  shows "length ms = N" and "length shs = N" and "\<forall>k<N. shs ! k < LENGTH('a)"
proof -
  from assms obtain s' where
    loop: "GetArgInfo_loop N bs 0 (arg_info_init N :: 'a word arg_info_state) = Inr s'"
    and ms: "ms = masks s'" and shs: "shs = shifts s'"
    by (auto simp add: GetArgInfo_unfold split: sum.splits if_splits)
  from GetArgInfo_loop_init [of N bs, where 'a = 'a] loop
  have len: "length (masks s') = N" "length (shifts s') = N"
    and sh: "\<And>k. k < N \<Longrightarrow> shifts s' ! k =
                    fold (\<lambda>j sh. LENGTH('a) - 1 - j)
                      (recorded_positions LENGTH('a) bs k 0) 0"
    by (simp_all add: loop_post_def arg_info_init_def)
  from len ms shs show "length ms = N" "length shs = N"
    by simp_all
  show "\<forall>k<N. shs ! k < LENGTH('a)"
  proof (intro allI impI)
    fix k assume "k < N"
    have "LENGTH('a) - 1 - j < LENGTH('a)" for j
      by (simp add: less_imp_diff_less)
    then show "shs ! k < LENGTH('a)"
      unfolding shs sh [OF \<open>k < N\<close>] fold_overwrite by simp
  qed
qed

lemma single_field_mask_eq:
  assumes "length bs = LENGTH('a::len)" and "field_count bs = 1"
  shows "(field_mask bs 0 :: 'a word) =
           push_bit (field_shift LENGTH('a) bs 0) (mask (length (field_positions bs 0)))"
proof (rule bit_word_eqI)
  fix p assume p: "p < LENGTH('a)"
  note b = single_field_mask_bits [OF assms]
  have "p - field_shift LENGTH('a) bs 0 < length (field_positions bs 0) \<longleftrightarrow>
          p < field_shift LENGTH('a) bs 0 + length (field_positions bs 0)"
    if "field_shift LENGTH('a) bs 0 \<le> p"
    using that by auto
  with p show "bit (field_mask bs 0 :: 'a word) p \<longleftrightarrow>
      bit (push_bit (field_shift LENGTH('a) bs 0) (mask (length (field_positions bs 0)) :: 'a word)) p"
    unfolding b(2) by (auto simp add: bit_push_bit_iff bit_mask_iff)
qed

section \<open>The claims about the field tables\<close>

text \<open>
  The character with code 0 is the value of \<^verbatim>\<open>ch\<close> that \<^verbatim>\<open>GetArgInfo\<close> reads as "no field is
  open". A pattern that holds this character as a field marker is scanned as if no field
  had been opened there, so the properties that speak of every pattern are first shown
  false at such a pattern and then proved for the patterns without this character.
\<close>

text \<open>
  Claim C3, at a pattern it does not hold for. The pattern of width 8 that holds the
  character with code 0, then \<^verbatim>\<open>'a'\<close>, then six \<^verbatim>\<open>'0'\<close> has two fields, of one position each,
  with masks \<open>0x80\<close> and \<open>0x40\<close>. \<^verbatim>\<open>GetArgInfo<2>\<close> records both positions under index 0:
  its assertion fails, and without the assertion it returns the masks \<open>0xC0\<close> and \<open>0\<close>.
\<close>

theorem GetArgInfo_fields_counterexample:
  "length [CHR 0x00, CHR ''a'', CHR ''0'', CHR ''0'', CHR ''0'', CHR ''0'', CHR ''0'', CHR ''0'']
     = LENGTH(8) \<and>
   field_count [CHR 0x00, CHR ''a'', CHR ''0'', CHR ''0'', CHR ''0'', CHR ''0'', CHR ''0'', CHR ''0'']
     = 2 \<and>
   (GetArgInfo False 2
      [CHR 0x00, CHR ''a'', CHR ''0'', CHR ''0'', CHR ''0'', CHR ''0'', CHR ''0'', CHR ''0'']
      :: error + 8 word list \<times> nat list) = Inl AssertionFailed \<and>
   GetArgInfo True 2
      [CHR 0x00, CHR ''a'', CHR ''0'', CHR ''0'', CHR ''0'', CHR ''0'', CHR ''0'', CHR ''0'']
     = Inr ([0xC0, 0 :: 8 word], [6, 0]) \<and>
   (field_mask [CHR 0x00, CHR ''a'', CHR ''0'', CHR ''0'', CHR ''0'', CHR ''0'', CHR ''0'', CHR ''0'']
      0 :: 8 word) = 0x80 \<and>
   (field_mask [CHR 0x00, CHR ''a'', CHR ''0'', CHR ''0'', CHR ''0'', CHR ''0'', CHR ''0'', CHR ''0'']
      1 :: 8 word) = 0x40"
  by code_simp

text \<open>
  Claim C3, amended. For every pattern of exactly \<open>W\<close> characters, none of them the
  character with code 0, that contains exactly \<open>N\<close> distinct fields, \<^verbatim>\<open>GetArgInfo<N>\<close> returns
  two tables of length \<open>N\<close> in which, for each field index \<open>k\<close>, the mask is the OR of the
  single-bit masks at every pattern position belonging to field \<open>k\<close>, and the shift is the
  bit position \<open>W - 1 - i\<close> of the last-scanned, least significant, character of field \<open>k\<close>.
\<close>

theorem GetArgInfo_fields:
  assumes "length bitstring = LENGTH('a::len)"
    and "CHR 0x00 \<notin> set bitstring"
    and "field_count bitstring = N"
  shows "\<exists>ms shs. GetArgInfo ignore_asserts N bitstring = Inr (ms :: 'a word list, shs) \<and>
           length ms = N \<and> length shs = N \<and>
           (\<forall>k<N. field_positions bitstring k \<noteq> [] \<and>
                   ms ! k = field_mask bitstring k \<and>
                   shs ! k = field_shift LENGTH('a) bitstring k)"
  using GetArgInfo_exact [OF assms, of ignore_asserts] field_positions_nonempty [of _ bitstring] assms(3)
  by simp

theorem GetArgInfo_fields_witness:
  "length ''10aabbb-'' = LENGTH(8) \<and> CHR 0x00 \<notin> set ''10aabbb-'' \<and>
   field_count ''10aabbb-'' = 2 \<and>
   GetArgInfo False 2 ''10aabbb-'' = Inr ([0x30, 0x0E :: 8 word], [4, 1]) \<and>
   (field_mask ''10aabbb-'' 0 :: 8 word) = 0x30 \<and> field_shift LENGTH(8) ''10aabbb-'' 0 = 4 \<and>
   (field_mask ''10aabbb-'' 1 :: 8 word) = 0x0E \<and> field_shift LENGTH(8) ''10aabbb-'' 1 = 1"
proof -
  have len: "length ''10aabbb-'' = LENGTH(8)"
    by simp
  have nul: "CHR 0x00 \<notin> set ''10aabbb-''"
    by simp
  have cnt: "field_count ''10aabbb-'' = 2"
    by code_simp
  have res: "GetArgInfo False 2 ''10aabbb-'' = Inr ([0x30, 0x0E :: 8 word], [4, 1])"
    by code_simp
  from GetArgInfo_fields [OF len nul cnt, of False] res
  have "\<forall>k<2. [0x30, 0x0E :: 8 word] ! k = field_mask ''10aabbb-'' k \<and>
               [4, 1] ! k = field_shift LENGTH(8) ''10aabbb-'' k"
    by auto
  then have "(0 < (2 :: nat) \<longrightarrow> [0x30, 0x0E :: 8 word] ! 0 = field_mask ''10aabbb-'' 0 \<and>
               [4, 1] ! 0 = field_shift LENGTH(8) ''10aabbb-'' 0) \<and>
             (1 < (2 :: nat) \<longrightarrow> [0x30, 0x0E :: 8 word] ! 1 = field_mask ''10aabbb-'' 1 \<and>
               [4, 1] ! 1 = field_shift LENGTH(8) ''10aabbb-'' 1)"
    by blast
  then have "(field_mask ''10aabbb-'' 0 :: 8 word) = 0x30" "field_shift LENGTH(8) ''10aabbb-'' 0 = 4"
    "(field_mask ''10aabbb-'' 1 :: 8 word) = 0x0E" "field_shift LENGTH(8) ''10aabbb-'' 1 = 1"
    by simp_all
  with len nul cnt res show ?thesis
    by blast
qed

text \<open>
  Claim C6, at a pattern it does not hold for. The pattern of width 8 that starts with
  the character with code 0 followed by \<^verbatim>\<open>'a'\<close> has two fields, more than the arity 1, yet
  \<^verbatim>\<open>GetArgInfo<1>\<close> throws nothing and returns a table.
\<close>

theorem GetArgInfo_too_many_fields_counterexample:
  "length [CHR 0x00, CHR ''a'', CHR ''1'', CHR ''1'', CHR ''0'', CHR ''0'', CHR ''-'', CHR ''-'']
     = LENGTH(8) \<and>
   field_count [CHR 0x00, CHR ''a'', CHR ''1'', CHR ''1'', CHR ''0'', CHR ''0'', CHR ''-'', CHR ''-'']
     = 2 \<and>
   GetArgInfo False 1
      [CHR 0x00, CHR ''a'', CHR ''1'', CHR ''1'', CHR ''0'', CHR ''0'', CHR ''-'', CHR ''-'']
     = Inr ([0xC0 :: 8 word], [6])"
  by code_simp

text \<open>
  Claim C6, amended. For every pattern of exactly \<open>W\<close> characters, none of them the
  character with code 0, whose number of distinct fields exceeds the arity \<open>N\<close>,
  \<^verbatim>\<open>GetArgInfo<N>\<close> throws \<^verbatim>\<open>std::out_of_range\<close> during the scan, so that no table is returned
  and the assertion is not reached. For \<open>N = 0\<close> this holds of every pattern with at least
  one field-marker character, the character with code 0 included.
\<close>

theorem GetArgInfo_too_many_fields:
  assumes "length bitstring = LENGTH('a::len)"
    and "CHR 0x00 \<notin> set bitstring \<and> N < field_count bitstring \<or>
         N = 0 \<and> (\<exists>i<LENGTH('a). is_field_marker (bitstring ! i))"
  shows "(GetArgInfo ignore_asserts N bitstring :: error + 'a word list \<times> nat list) = Inl OutOfRange"
  using assms(2)
proof
  assume "CHR 0x00 \<notin> set bitstring \<and> N < field_count bitstring"
  then show ?thesis
    using GetArgInfo_too_many [OF assms(1)] by blast
next
  assume a: "N = 0 \<and> (\<exists>i<LENGTH('a). is_field_marker (bitstring ! i))"
  then obtain i where "i < length bitstring" "is_field_marker (bitstring ! i)"
    using assms(1) by auto
  then have "0 < field_count bitstring"
    by (rule marker_field_count)
  from GetArgInfo_no_arity [OF assms(1) this, of ignore_asserts] a show ?thesis
    by simp
qed

theorem GetArgInfo_too_many_fields_witness:
  "length ''10aabbb-'' = LENGTH(8) \<and> CHR 0x00 \<notin> set ''10aabbb-'' \<and>
   1 < field_count ''10aabbb-'' \<and>
   (GetArgInfo False 1 ''10aabbb-'' :: error + 8 word list \<times> nat list) = Inl OutOfRange \<and>
   length ''0000000x'' = LENGTH(8) \<and> 7 < LENGTH(8) \<and> is_field_marker (''0000000x'' ! 7) \<and>
   (GetArgInfo False 0 ''0000000x'' :: error + 8 word list \<times> nat list) = Inl OutOfRange"
proof -
  have len: "length ''10aabbb-'' = LENGTH(8)"
    by simp
  have nul: "CHR 0x00 \<notin> set ''10aabbb-''"
    by simp
  have cnt: "1 < field_count ''10aabbb-''"
    by code_simp
  from nul cnt have "CHR 0x00 \<notin> set ''10aabbb-'' \<and> 1 < field_count ''10aabbb-'' \<or>
      (1 :: nat) = 0 \<and> (\<exists>i<LENGTH(8). is_field_marker (''10aabbb-'' ! i))"
    by blast
  from GetArgInfo_too_many_fields [OF len this, of False]
  have many: "(GetArgInfo False 1 ''10aabbb-'' :: error + 8 word list \<times> nat list) = Inl OutOfRange" .
  have len0: "length ''0000000x'' = LENGTH(8)"
    by simp
  have m: "7 < LENGTH(8)" "is_field_marker (''0000000x'' ! 7)"
    by (simp_all add: is_field_marker_def)
  then have "CHR 0x00 \<notin> set ''0000000x'' \<and> 0 < field_count ''0000000x'' \<or>
      (0 :: nat) = 0 \<and> (\<exists>i<LENGTH(8). is_field_marker (''0000000x'' ! i))"
    by blast
  from GetArgInfo_too_many_fields [OF len0 this, of False]
  have none: "(GetArgInfo False 0 ''0000000x'' :: error + 8 word list \<times> nat list) = Inl OutOfRange" .
  from len nul cnt many len0 m none show ?thesis
    by blast
qed

text \<open>
  Claim C7, at two patterns it does not hold for. The pattern \<^verbatim>\<open>"00000000"\<close> has no field,
  fewer than the arity 1. \<^verbatim>\<open>GetArgInfo<1>\<close> does not throw \<^verbatim>\<open>std::out_of_range\<close>: its assertion
  fails, and with \<^verbatim>\<open>DYNARMIC_IGNORE_ASSERTS\<close> it returns a table whose only mask is 0. The
  pattern that holds \<^verbatim>\<open>'0'\<close>, the character with code 0, \<^verbatim>\<open>'q'\<close> and five \<^verbatim>\<open>'1'\<close> has two fields,
  more than the arity 1, and \<^verbatim>\<open>GetArgInfo<1>\<close> returns a table.
\<close>

theorem GetArgInfo_arity_mismatch_counterexample:
  "length ''00000000'' = LENGTH(8) \<and> field_count ''00000000'' = 0 \<and>
   (GetArgInfo False 1 ''00000000'' :: error + 8 word list \<times> nat list) = Inl AssertionFailed \<and>
   GetArgInfo True 1 ''00000000'' = Inr ([0 :: 8 word], [0]) \<and>
   length [CHR ''0'', CHR 0x00, CHR ''q'', CHR ''1'', CHR ''1'', CHR ''1'', CHR ''1'', CHR ''1'']
     = LENGTH(8) \<and>
   field_count [CHR ''0'', CHR 0x00, CHR ''q'', CHR ''1'', CHR ''1'', CHR ''1'', CHR ''1'', CHR ''1'']
     = 2 \<and>
   GetArgInfo False 1
      [CHR ''0'', CHR 0x00, CHR ''q'', CHR ''1'', CHR ''1'', CHR ''1'', CHR ''1'', CHR ''1'']
     = Inr ([0x60 :: 8 word], [5])"
  by code_simp

text \<open>
  Claim C7, amended. For every pattern of exactly \<open>W\<close> characters whose number of distinct
  fields differs from the arity \<open>N\<close>: with more fields than \<open>N\<close>, and no character with
  code 0 in the pattern, \<^verbatim>\<open>GetArgInfo<N>\<close> throws \<^verbatim>\<open>std::out_of_range\<close>; with fewer fields than
  \<open>N\<close> it throws nothing, its trailing assertion fails, and when the assertion is compiled
  out it returns tables of length \<open>N\<close> with a zero mask.
\<close>

theorem GetArgInfo_arity_mismatch:
  assumes "length bitstring = LENGTH('a::len)"
    and "field_count bitstring \<noteq> N"
  shows "(N < field_count bitstring \<and> CHR 0x00 \<notin> set bitstring \<longrightarrow>
            (GetArgInfo ignore_asserts N bitstring :: error + 'a word list \<times> nat list)
              = Inl OutOfRange) \<and>
         (field_count bitstring < N \<longrightarrow>
            (GetArgInfo False N bitstring :: error + 'a word list \<times> nat list)
              = Inl AssertionFailed \<and>
            (\<exists>ms shs. GetArgInfo True N bitstring = Inr (ms :: 'a word list, shs) \<and>
               length ms = N \<and> length shs = N \<and> (\<exists>k<N. ms ! k = 0)))"
proof (intro conjI impI)
  assume "N < field_count bitstring \<and> CHR 0x00 \<notin> set bitstring"
  then show "(GetArgInfo ignore_asserts N bitstring :: error + 'a word list \<times> nat list)
              = Inl OutOfRange"
    using GetArgInfo_too_many [OF assms(1)] by blast
next
  assume few: "field_count bitstring < N"
  show "(GetArgInfo False N bitstring :: error + 'a word list \<times> nat list) = Inl AssertionFailed"
    by (rule GetArgInfo_too_few(1) [OF assms(1) few])
  from GetArgInfo_too_few(2) [OF assms(1) few]
  obtain ms :: "'a word list" and shs where r: "GetArgInfo True N bitstring = Inr (ms, shs)"
    "length ms = N" "length shs = N" "\<forall>k<N. field_count bitstring \<le> k \<longrightarrow> ms ! k = 0"
    by blast
  from few r(4) have "N - 1 < N \<and> ms ! (N - 1) = 0"
    by simp
  then have "\<exists>k<N. ms ! k = 0" ..
  with r show "\<exists>ms shs. GetArgInfo True N bitstring = Inr (ms :: 'a word list, shs) \<and>
               length ms = N \<and> length shs = N \<and> (\<exists>k<N. ms ! k = 0)"
    by simp
qed

theorem GetArgInfo_arity_mismatch_witness:
  "length ''0100aaab'' = LENGTH(8) \<and> CHR 0x00 \<notin> set ''0100aaab'' \<and>
   field_count ''0100aaab'' = 2 \<and>
   (GetArgInfo False 1 ''0100aaab'' :: error + 8 word list \<times> nat list) = Inl OutOfRange \<and>
   (GetArgInfo False 3 ''0100aaab'' :: error + 8 word list \<times> nat list) = Inl AssertionFailed \<and>
   GetArgInfo True 3 ''0100aaab'' = Inr ([0x0E, 0x01, 0 :: 8 word], [1, 0, 0])"
proof -
  have len: "length ''0100aaab'' = LENGTH(8)"
    by simp
  have nul: "CHR 0x00 \<notin> set ''0100aaab''"
    by simp
  have cnt: "field_count ''0100aaab'' = 2"
    by code_simp
  have res: "GetArgInfo True 3 ''0100aaab'' = Inr ([0x0E, 0x01, 0 :: 8 word], [1, 0, 0])"
    by code_simp
  from cnt have ne: "field_count ''0100aaab'' \<noteq> 1" "field_count ''0100aaab'' \<noteq> 3"
    by simp_all
  from GetArgInfo_arity_mismatch [OF len ne(1), of False] cnt nul
  have many: "(GetArgInfo False 1 ''0100aaab'' :: error + 8 word list \<times> nat list) = Inl OutOfRange"
    by simp
  from GetArgInfo_arity_mismatch [OF len ne(2), of False] cnt
  have few: "(GetArgInfo False 3 ''0100aaab'' :: error + 8 word list \<times> nat list) = Inl AssertionFailed"
    by simp
  from len nul cnt many few res show ?thesis
    by blast
qed

text \<open>
  Claim C8, at a pattern it does not hold for. The pattern of width 8 that holds \<^verbatim>\<open>'1'\<close>,
  the character with code 0, \<^verbatim>\<open>'n'\<close> and five \<^verbatim>\<open>'0'\<close> has exactly two fields, and the assertion
  of \<^verbatim>\<open>GetArgInfo<2>\<close> fails.
\<close>

theorem GetArgInfo_nonzero_masks_counterexample:
  "length [CHR ''1'', CHR 0x00, CHR ''n'', CHR ''0'', CHR ''0'', CHR ''0'', CHR ''0'', CHR ''0'']
     = LENGTH(8) \<and>
   field_count [CHR ''1'', CHR 0x00, CHR ''n'', CHR ''0'', CHR ''0'', CHR ''0'', CHR ''0'', CHR ''0'']
     = 2 \<and>
   (GetArgInfo False 2
      [CHR ''1'', CHR 0x00, CHR ''n'', CHR ''0'', CHR ''0'', CHR ''0'', CHR ''0'', CHR ''0'']
      :: error + 8 word list \<times> nat list) = Inl AssertionFailed"
  by code_simp

text \<open>
  Claim C8, amended. For every pattern of exactly \<open>W\<close> characters, none of them the
  character with code 0, that contains exactly \<open>N\<close> distinct fields, \<^verbatim>\<open>GetArgInfo<N>\<close>
  completes without throwing and every entry of the returned mask table is non-zero: the
  assertion holds, and the result is the same with the assertion compiled out.
\<close>

theorem GetArgInfo_nonzero_masks:
  assumes "length bitstring = LENGTH('a::len)"
    and "CHR 0x00 \<notin> set bitstring"
    and "field_count bitstring = N"
  shows "\<exists>ms shs. GetArgInfo False N bitstring = Inr (ms :: 'a word list, shs) \<and>
           GetArgInfo True N bitstring = Inr (ms, shs) \<and>
           length ms = N \<and> list_all (\<lambda>m. m \<noteq> 0) ms"
proof -
  have "list_all (\<lambda>m. m \<noteq> 0) (map (field_mask bitstring) [0..<N] :: 'a word list)"
    using field_mask_nonzero [of _ bitstring, where 'a = 'a] assms(3)
    by (simp add: list_all_iff)
  with GetArgInfo_exact [OF assms, of False] GetArgInfo_exact [OF assms, of True]
  show ?thesis
    by simp
qed

theorem GetArgInfo_nonzero_masks_witness:
  "length ''0110mmmm'' = LENGTH(8) \<and> CHR 0x00 \<notin> set ''0110mmmm'' \<and>
   field_count ''0110mmmm'' = 1 \<and>
   GetArgInfo False 1 ''0110mmmm'' = Inr ([0x0F :: 8 word], [0]) \<and>
   GetArgInfo True 1 ''0110mmmm'' = Inr ([0x0F :: 8 word], [0]) \<and>
   list_all (\<lambda>m. m \<noteq> 0) [0x0F :: 8 word]"
proof -
  have len: "length ''0110mmmm'' = LENGTH(8)"
    by simp
  have nul: "CHR 0x00 \<notin> set ''0110mmmm''"
    by simp
  have cnt: "field_count ''0110mmmm'' = 1"
    by code_simp
  have res: "GetArgInfo False 1 ''0110mmmm'' = Inr ([0x0F :: 8 word], [0])"
    by code_simp
  from GetArgInfo_nonzero_masks [OF len nul cnt] res
  have "GetArgInfo True 1 ''0110mmmm'' = Inr ([0x0F :: 8 word], [0])"
    "list_all (\<lambda>m. m \<noteq> 0) [0x0F :: 8 word]"
    by auto
  with len nul cnt res show ?thesis
    by blast
qed

text \<open>
  Claim C10. For every pattern of exactly \<open>W\<close> characters with strictly fewer distinct
  fields than the arity \<open>N\<close>, \<^verbatim>\<open>GetArgInfo<N>\<close> does not throw \<^verbatim>\<open>std::out_of_range\<close> during the
  scan: the scan completes with an entry of the mask table still zero, so the trailing
  assertion fails, and with \<^verbatim>\<open>DYNARMIC_IGNORE_ASSERTS\<close> the tables are returned with that
  zero entry.
\<close>

theorem GetArgInfo_too_few_fields:
  assumes "length bitstring = LENGTH('a::len)"
    and "field_count bitstring < N"
  shows "(GetArgInfo False N bitstring :: error + 'a word list \<times> nat list) = Inl AssertionFailed \<and>
         (\<exists>ms shs. GetArgInfo True N bitstring = Inr (ms :: 'a word list, shs) \<and>
            length ms = N \<and> length shs = N \<and> (\<exists>k<N. ms ! k = 0))"
proof -
  from GetArgInfo_too_few(2) [OF assms]
  obtain ms :: "'a word list" and shs where r: "GetArgInfo True N bitstring = Inr (ms, shs)"
    "length ms = N" "length shs = N" "\<forall>k<N. field_count bitstring \<le> k \<longrightarrow> ms ! k = 0"
    by blast
  from assms(2) r(4) have "N - 1 < N \<and> ms ! (N - 1) = 0"
    by simp
  then have "\<exists>k<N. ms ! k = 0" ..
  with r GetArgInfo_too_few(1) [OF assms] show ?thesis
    by simp
qed

theorem GetArgInfo_too_few_fields_witness:
  "length ''1101dddd'' = LENGTH(8) \<and> field_count ''1101dddd'' < 2 \<and>
   (GetArgInfo False 2 ''1101dddd'' :: error + 8 word list \<times> nat list) = Inl AssertionFailed \<and>
   GetArgInfo True 2 ''1101dddd'' = Inr ([0x0F, 0 :: 8 word], [0, 0])"
proof -
  have len: "length ''1101dddd'' = LENGTH(8)"
    by simp
  have cnt: "field_count ''1101dddd'' < 2"
    by code_simp
  have res: "GetArgInfo True 2 ''1101dddd'' = Inr ([0x0F, 0 :: 8 word], [0, 0])"
    by code_simp
  from GetArgInfo_too_few_fields [OF len cnt] len cnt res show ?thesis
    by blast
qed

text \<open>
  Claim C5, at a pattern it does not hold for. In the pattern of width 8 that holds the
  character with code 0, \<^verbatim>\<open>'a'\<close>, \<^verbatim>\<open>'0'\<close>, the character with code 0, \<^verbatim>\<open>'0'\<close>, \<^verbatim>\<open>'b'\<close>, \<^verbatim>\<open>'1'\<close>, \<^verbatim>\<open>'1'\<close>,
  positions 0 and 1 are adjacent runs of different marker characters, and the run at
  position 5 is separated from the run at position 3 by a \<^verbatim>\<open>'0'\<close>. \<^verbatim>\<open>GetArgInfo<2>\<close> returns
  normally, with positions 0 and 1 under index 0 and positions 3 and 5 under index 1.
\<close>

theorem GetArgInfo_field_indices_counterexample:
  "length [CHR 0x00, CHR ''a'', CHR ''0'', CHR 0x00, CHR ''0'', CHR ''b'', CHR ''1'', CHR ''1'']
     = LENGTH(8) \<and>
   GetArgInfo False 2
      [CHR 0x00, CHR ''a'', CHR ''0'', CHR 0x00, CHR ''0'', CHR ''b'', CHR ''1'', CHR ''1'']
     = Inr ([0xC0, 0x14 :: 8 word], [6, 2]) \<and>
   is_field_marker (CHR 0x00) \<and> is_field_marker (CHR ''a'') \<and> CHR 0x00 \<noteq> CHR ''a'' \<and>
   index_at [0xC0, 0x14 :: 8 word] (LENGTH(8) - 1 - 0) = Some 0 \<and>
   index_at [0xC0, 0x14 :: 8 word] (LENGTH(8) - 1 - 1) = Some 0 \<and>
   \<not> is_field_marker (CHR ''0'') \<and> is_field_marker (CHR ''b'') \<and>
   index_at [0xC0, 0x14 :: 8 word] (LENGTH(8) - 1 - 3) = Some 1 \<and>
   index_at [0xC0, 0x14 :: 8 word] (LENGTH(8) - 1 - 5) = Some 1"
  by code_simp

text \<open>
  Claim C5, amended. For every pattern of exactly \<open>W\<close> characters, none of them the
  character with code 0, for which \<^verbatim>\<open>GetArgInfo<N>\<close> returns its tables: the field indices are
  assigned in strictly increasing order of first appearance, so that the runs, taken left
  to right, are recorded under the indices 0, 1, 2 and so on; two immediately adjacent
  runs of different marker characters are recorded under two consecutive indices; and a
  run of marker characters that is separated from an earlier run by a \<^verbatim>\<open>'0'\<close>, \<^verbatim>\<open>'1'\<close> or
  \<^verbatim>\<open>'-'\<close> is recorded under a greater index, whatever its marker character.
\<close>

theorem GetArgInfo_field_indices:
  assumes "length bitstring = LENGTH('a::len)"
    and "CHR 0x00 \<notin> set bitstring"
    and "GetArgInfo ignore_asserts N bitstring = Inr (ms :: 'a word list, shs)"
  shows "map (\<lambda>j. index_at ms (LENGTH('a) - 1 - j)) (filter (run_start bitstring) [0..<LENGTH('a)])
           = map Some [0..<field_count bitstring] \<and>
         (\<forall>i. Suc i < LENGTH('a) \<and> is_field_marker (bitstring ! i) \<and>
               is_field_marker (bitstring ! Suc i) \<and> bitstring ! i \<noteq> bitstring ! Suc i \<longrightarrow>
            (\<exists>k. index_at ms (LENGTH('a) - 1 - i) = Some k \<and>
                 index_at ms (LENGTH('a) - 1 - Suc i) = Some (Suc k))) \<and>
         (\<forall>i f j. i < f \<and> f < j \<and> j < LENGTH('a) \<and> is_field_marker (bitstring ! i) \<and>
               \<not> is_field_marker (bitstring ! f) \<and> is_field_marker (bitstring ! j) \<longrightarrow>
            (\<exists>k k'. index_at ms (LENGTH('a) - 1 - i) = Some k \<and>
                 index_at ms (LENGTH('a) - 1 - j) = Some k' \<and> k < k'))"
proof -
  note r = GetArgInfo_returns_field_masks [OF assms]
  have at: "index_at ms (LENGTH('a) - 1 - j) = Some (field_of bitstring j)"
    if "j < LENGTH('a)" "is_field_marker (bitstring ! j)" for j
    unfolding r(2) using that assms(1) r(1) by (intro index_at_field_masks)
  have "map (\<lambda>j. index_at ms (LENGTH('a) - 1 - j)) (filter (run_start bitstring) [0..<LENGTH('a)])
          = map (Some \<circ> field_of bitstring) (filter (run_start bitstring) [0..<LENGTH('a)])"
  proof (rule map_cong)
    fix j assume "j \<in> set (filter (run_start bitstring) [0..<LENGTH('a)])"
    then have "j < LENGTH('a)" "is_field_marker (bitstring ! j)"
      by (simp_all add: run_start_def)
    from at [OF this]
    show "index_at ms (LENGTH('a) - 1 - j) = (Some \<circ> field_of bitstring) j"
      by simp
  qed simp
  also have "\<dots> = map Some [0..<field_count bitstring]"
    using field_of_run_starts [of bitstring "LENGTH('a)"] assms(1)
    by (simp add: field_count_def flip: map_map)
  finally have first: "map (\<lambda>j. index_at ms (LENGTH('a) - 1 - j))
      (filter (run_start bitstring) [0..<LENGTH('a)]) = map Some [0..<field_count bitstring]" .
  have adjacent: "\<exists>k. index_at ms (LENGTH('a) - 1 - i) = Some k \<and>
                 index_at ms (LENGTH('a) - 1 - Suc i) = Some (Suc k)"
    if "Suc i < LENGTH('a)" "is_field_marker (bitstring ! i)"
      "is_field_marker (bitstring ! Suc i)" "bitstring ! i \<noteq> bitstring ! Suc i" for i
    using that at [of i] at [of "Suc i"] field_of_adjacent [of bitstring i] by simp
  have separated: "\<exists>k k'. index_at ms (LENGTH('a) - 1 - i) = Some k \<and>
                 index_at ms (LENGTH('a) - 1 - j) = Some k' \<and> k < k'"
    if "i < f" "f < j" "j < LENGTH('a)" "is_field_marker (bitstring ! i)"
      "\<not> is_field_marker (bitstring ! f)" "is_field_marker (bitstring ! j)" for i f j
    using that at [of i] at [of j] field_of_separated [of bitstring i f j] by simp
  from first adjacent separated show ?thesis
    by blast
qed

theorem GetArgInfo_field_indices_witness:
  "length ''aabb0aa1'' = LENGTH(8) \<and> CHR 0x00 \<notin> set ''aabb0aa1'' \<and>
   GetArgInfo False 3 ''aabb0aa1'' = Inr ([0xC0, 0x30, 0x06 :: 8 word], [6, 4, 1]) \<and>
   map (\<lambda>j. index_at [0xC0, 0x30, 0x06 :: 8 word] (LENGTH(8) - 1 - j))
       (filter (run_start ''aabb0aa1'') [0..<LENGTH(8)]) = map Some [0..<field_count ''aabb0aa1''] \<and>
   (\<exists>k. index_at [0xC0, 0x30, 0x06 :: 8 word] (LENGTH(8) - 1 - 1) = Some k \<and>
        index_at [0xC0, 0x30, 0x06 :: 8 word] (LENGTH(8) - 1 - Suc 1) = Some (Suc k)) \<and>
   (\<exists>k k'. index_at [0xC0, 0x30, 0x06 :: 8 word] (LENGTH(8) - 1 - 0) = Some k \<and>
        index_at [0xC0, 0x30, 0x06 :: 8 word] (LENGTH(8) - 1 - 5) = Some k' \<and> k < k')"
proof -
  have len: "length ''aabb0aa1'' = LENGTH(8)"
    by simp
  have nul: "CHR 0x00 \<notin> set ''aabb0aa1''"
    by simp
  have res: "GetArgInfo False 3 ''aabb0aa1'' = Inr ([0xC0, 0x30, 0x06 :: 8 word], [6, 4, 1])"
    by code_simp
  note t = GetArgInfo_field_indices [OF len nul res]
  have adj: "Suc 1 < LENGTH(8) \<and> is_field_marker (''aabb0aa1'' ! 1) \<and>
      is_field_marker (''aabb0aa1'' ! Suc 1) \<and> ''aabb0aa1'' ! 1 \<noteq> ''aabb0aa1'' ! Suc 1"
    by (simp add: is_field_marker_def)
  have sep: "(0 :: nat) < 4 \<and> (4 :: nat) < 5 \<and> 5 < LENGTH(8) \<and> is_field_marker (''aabb0aa1'' ! 0) \<and>
      \<not> is_field_marker (''aabb0aa1'' ! 4) \<and> is_field_marker (''aabb0aa1'' ! 5)"
    by (simp add: is_field_marker_def)
  from t adj have a: "\<exists>k. index_at [0xC0, 0x30, 0x06 :: 8 word] (LENGTH(8) - 1 - 1) = Some k \<and>
        index_at [0xC0, 0x30, 0x06 :: 8 word] (LENGTH(8) - 1 - Suc 1) = Some (Suc k)"
    by blast
  from t sep have s: "\<exists>k k'. index_at [0xC0, 0x30, 0x06 :: 8 word] (LENGTH(8) - 1 - 0) = Some k \<and>
        index_at [0xC0, 0x30, 0x06 :: 8 word] (LENGTH(8) - 1 - 5) = Some k' \<and> k < k'"
    by blast
  from t len nul res a s show ?thesis
    by blast
qed

text \<open>
  Claim C9. For every pattern of exactly \<open>W\<close> characters with a single field, of width
  \<open>n\<close>, \<^verbatim>\<open>GetArgInfo<1>\<close> returns the mask and the shift of that field: the mask \<open>m\<close> is the
  block of \<open>n\<close> bits from bit \<open>s\<close> up, with \<open>s\<close> the shift. For every \<open>n\<close>-bit value \<open>v\<close>
  and every word \<open>x\<close> with \<open>x AND m = v << s\<close>, the extraction \<open>(x AND m) >> s\<close> gives
  back \<open>v\<close>, and the callable that \<^verbatim>\<open>VisitorCaller::Make\<close> builds from this table, alone or
  stored by \<^verbatim>\<open>GetMatcher\<close>, calls the handler with \<open>v\<close> converted to its parameter type.
  Placing \<open>v\<close> into the field of any word gives such an \<open>x\<close>.
\<close>

theorem single_field_round_trip:
  fixes v :: "'a::len word"
  assumes "length bitstring = LENGTH('a)"
    and "field_count bitstring = 1"
    and "n = length (field_positions bitstring 0)"
    and "unat v < 2 ^ n"
  shows "GetArgInfo ignore_asserts 1 bitstring =
           Inr ([field_mask bitstring 0 :: 'a word], [field_shift LENGTH('a) bitstring 0]) \<and>
         field_shift LENGTH('a) bitstring 0 + n \<le> LENGTH('a) \<and>
         (field_mask bitstring 0 :: 'a word) = push_bit (field_shift LENGTH('a) bitstring 0) (mask n) \<and>
         (\<forall>x. x AND field_mask bitstring 0 = push_bit (field_shift LENGTH('a) bitstring 0) v \<longrightarrow>
            drop_bit (field_shift LENGTH('a) bitstring 0) (x AND field_mask bitstring 0) = v \<and>
            Make int_bits [static_cast] [0] fn
              [field_mask bitstring 0] [field_shift LENGTH('a) bitstring 0] vis x
              = Some (fn vis [static_cast v]) \<and>
            matcher_fn (GetMatcher int_bits [static_cast] fn name mask_and_expect
              ([field_mask bitstring 0], [field_shift LENGTH('a) bitstring 0])) vis x
              = Some (fn vis [static_cast v])) \<and>
         (\<forall>x. ((x AND NOT (field_mask bitstring 0)) OR
                 push_bit (field_shift LENGTH('a) bitstring 0) v) AND field_mask bitstring 0
               = push_bit (field_shift LENGTH('a) bitstring 0) v)"
proof -
  let ?m = "field_mask bitstring 0 :: 'a word"
  let ?s = "field_shift LENGTH('a) bitstring 0"
  note b = single_field_mask_bits [OF assms(1,2), folded assms(3)]
  note rt = field_round_trip [of ?s n ?m v, OF b(1) b(2) assms(4)]
  from b(1) have bound: "?s < max LENGTH('a) int_bits"
    using field_positions_nonempty [of 0 bitstring] assms(2,3) by (cases n) auto
  have mk: "Make int_bits [static_cast] [0] fn [?m] [?s] vis x =
      Some (fn vis [static_cast (drop_bit ?s (x AND ?m))])" for x
    using Make_tables [of "[?m]" "[static_cast]" "[?s]" int_bits fn vis x] bound
    by simp
  have call: "drop_bit ?s (x AND ?m) = v \<and>
      Make int_bits [static_cast] [0] fn [?m] [?s] vis x = Some (fn vis [static_cast v]) \<and>
      matcher_fn (GetMatcher int_bits [static_cast] fn name mask_and_expect ([?m], [?s])) vis x
        = Some (fn vis [static_cast v])"
    if "x AND ?m = push_bit ?s v" for x
  proof -
    from rt(2) [OF that] have e: "drop_bit ?s (x AND ?m) = v" .
    with mk [of x] have "Make int_bits [static_cast] [0] fn [?m] [?s] vis x
        = Some (fn vis [static_cast v])"
      by (simp only:)
    moreover have "matcher_fn (GetMatcher int_bits [static_cast] fn name mask_and_expect ([?m], [?s]))
        = Make int_bits [static_cast] [0] fn [?m] [?s]"
      by (simp add: GetMatcher_fn)
    ultimately show ?thesis
      using e by (simp only:)
  qed
  from GetArgInfo_single_field [OF assms(1,2), of ignore_asserts] b(1)
    single_field_mask_eq [OF assms(1,2), folded assms(3)] call rt(1)
  show ?thesis
    by blast
qed

theorem single_field_round_trip_witness:
  "length ''10aaa100'' = LENGTH(8) \<and> field_count ''10aaa100'' = 1 \<and>
   3 = length (field_positions ''10aaa100'' 0) \<and> unat (5 :: 8 word) < 2 ^ 3 \<and>
   GetArgInfo False 1 ''10aaa100'' = Inr ([0x38 :: 8 word], [3]) \<and>
   (field_mask ''10aaa100'' 0 :: 8 word) = 0x38 \<and> field_shift LENGTH(8) ''10aaa100'' 0 = 3 \<and>
   (0xAC :: 8 word) AND 0x38 = push_bit 3 5 \<and>
   drop_bit 3 ((0xAC :: 8 word) AND 0x38) = 5 \<and>
   Make 32 [\<lambda>w :: 8 word. w] [0] (\<lambda>(u :: unit) args. args) [0x38] [3] () 0xAC = Some [5] \<and>
   (((0xFF :: 8 word) AND NOT 0x38) OR push_bit 3 5) AND 0x38 = push_bit 3 5"
proof -
  have len: "length ''10aaa100'' = LENGTH(8)"
    by simp
  have cnt: "field_count ''10aaa100'' = 1"
    by code_simp
  have n: "3 = length (field_positions ''10aaa100'' 0)"
    by code_simp
  have v: "unat (5 :: 8 word) < 2 ^ 3"
    by simp
  have res: "GetArgInfo False 1 ''10aaa100'' = Inr ([0x38 :: 8 word], [3])"
    by code_simp
  have x: "(0xAC :: 8 word) AND 0x38 = push_bit 3 5"
    by simp
  note t = single_field_round_trip [OF len cnt n v, of False 32 "\<lambda>w. w"
      "\<lambda>(u :: unit) args. args" "()" "''op''" "(0xC0, 0x80)"]
  from t have "GetArgInfo False 1 ''10aaa100'' =
      Inr ([field_mask ''10aaa100'' 0 :: 8 word], [field_shift LENGTH(8) ''10aaa100'' 0])"
    by blast
  with res have "Inr ([field_mask ''10aaa100'' 0 :: 8 word], [field_shift LENGTH(8) ''10aaa100'' 0])
      = (Inr ([0x38], [3]) :: error + 8 word list \<times> nat list)"
    by (simp only:)
  then have m: "(field_mask ''10aaa100'' 0 :: 8 word) = 0x38"
    and s: "field_shift LENGTH(8) ''10aaa100'' 0 = 3"
    by (simp_all only: sum.inject prod.inject list.inject)
  from t have "\<forall>x :: 8 word. x AND field_mask ''10aaa100'' 0
        = push_bit (field_shift LENGTH(8) ''10aaa100'' 0) 5 \<longrightarrow>
      drop_bit (field_shift LENGTH(8) ''10aaa100'' 0) (x AND field_mask ''10aaa100'' 0) = 5 \<and>
      Make 32 [\<lambda>w :: 8 word. w] [0] (\<lambda>(u :: unit) args. args)
        [field_mask ''10aaa100'' 0] [field_shift LENGTH(8) ''10aaa100'' 0] () x = Some [5]"
    by blast
  then have rt: "\<forall>x :: 8 word. x AND 0x38 = push_bit 3 5 \<longrightarrow>
      drop_bit 3 (x AND 0x38) = 5 \<and>
      Make 32 [\<lambda>w :: 8 word. w] [0] (\<lambda>(u :: unit) args. args) [0x38] [3] () x = Some [5]"
    unfolding m s .
  from t have "\<forall>x :: 8 word. ((x AND NOT (field_mask ''10aaa100'' 0)) OR
                 push_bit (field_shift LENGTH(8) ''10aaa100'' 0) 5) AND field_mask ''10aaa100'' 0
               = push_bit (field_shift LENGTH(8) ''10aaa100'' 0) 5"
    by blast
  then have enc: "\<forall>x :: 8 word. ((x AND NOT 0x38) OR push_bit 3 5) AND 0x38 = push_bit 3 5"
    unfolding m s .
  from rt x have "drop_bit 3 ((0xAC :: 8 word) AND 0x38) = 5"
    "Make 32 [\<lambda>w :: 8 word. w] [0] (\<lambda>(u :: unit) args. args) [0x38] [3] () 0xAC = Some [5]"
    by blast+
  moreover from enc have "(((0xFF :: 8 word) AND NOT 0x38) OR push_bit 3 5) AND 0x38 = push_bit 3 5"
    by blast
  ultimately show ?thesis
    using len cnt n v res m s x by blast
qed

section \<open>The claim about the dispatch\<close>

text \<open>
  Claim C4, at a field table it does not hold for. With a 32-bit \<^verbatim>\<open>opcode_type\<close>, a 32-bit
  \<^verbatim>\<open>int\<close> and the table of the one mask \<open>0xFFFFFFFF\<close> and the one shift 32, the shift count
  is not below the width of the operand: \<^verbatim>\<open>(instruction & arg_masks[0]) >> arg_shifts[0]\<close> has
  undefined behaviour, and the call on \<open>0xDEADBEEF\<close> is the handler on no defined argument.
\<close>

theorem dispatch_calls_handler_counterexample:
  "length [\<lambda>w :: 32 word. w] = length [(0xFFFFFFFF :: 32 word, 32 :: nat)] \<and>
   Make 32 [\<lambda>w :: 32 word. w] [0] (\<lambda>(u :: unit) args. args) [0xFFFFFFFF] [32] () 0xDEADBEEF
     = None \<and>
   matcher_fn (GetMatcher 32 [\<lambda>w :: 32 word. w] (\<lambda>(u :: unit) args. args) ''op'' (0, 0)
       ([0xFFFFFFFF], [32])) () 0xDEADBEEF = None"
  by (simp add: GetMatcher_def Make_def shift_defined_def)

text \<open>
  Claim C4, amended. For every handler with \<open>k\<close> parameter types and every field table of
  \<open>k\<close> pairs of a mask and a shift whose shifts are below the width of the promoted
  \<^verbatim>\<open>opcode_type\<close>, the callable that \<^verbatim>\<open>VisitorCaller::Make\<close> builds, and that \<^verbatim>\<open>GetMatcher\<close>
  stores in the matcher, satisfies for every visitor \<open>v\<close> and word \<open>x\<close>: the call is the
  handler on \<open>v\<close> and the arguments \<open>cast\<^sub>i ((x AND mask\<^sub>i) >> shift\<^sub>i)\<close>, in order. Each
  argument is the unsigned value \<open>(x AND mask\<^sub>i) div 2 ^ shift\<^sub>i\<close>, converted to its
  parameter type. Every pair of tables that \<^verbatim>\<open>GetArgInfo\<close> returns for the arity \<open>k\<close> is such
  a table.
\<close>

theorem dispatch_calls_handler:
  fixes fields :: "('a::len word \<times> nat) list"
  assumes "length Args = length fields"
    and "\<forall>i<length fields. snd (fields ! i) < max LENGTH('a) int_bits"
  shows "matcher_fn (GetMatcher int_bits Args fn name mask_and_expect
             (map fst fields, map snd fields)) v x =
           Some (fn v (map2 (\<lambda>static_cast (m, s). static_cast (drop_bit s (x AND m)))
                         Args fields)) \<and>
         Make int_bits Args [0..<length Args] fn (map fst fields) (map snd fields) v x =
           Some (fn v (map2 (\<lambda>static_cast (m, s). static_cast (drop_bit s (x AND m)))
                         Args fields)) \<and>
         (\<forall>i<length fields.
            unat (drop_bit (snd (fields ! i)) (x AND fst (fields ! i))) =
              (unat x AND unat (fst (fields ! i))) div 2 ^ snd (fields ! i) \<and>
            map2 (\<lambda>static_cast (m, s). static_cast (drop_bit s (x AND m))) Args fields ! i =
              (Args ! i) (drop_bit (snd (fields ! i)) (x AND fst (fields ! i)))) \<and>
         (\<forall>ignore_asserts bitstring ms shs.
            GetArgInfo ignore_asserts (length Args) bitstring = Inr (ms :: 'a word list, shs) \<longrightarrow>
            matcher_fn (GetMatcher int_bits Args fn name mask_and_expect (ms, shs)) v x =
              Some (fn v (map (\<lambda>i. (Args ! i) (drop_bit (shs ! i) (x AND ms ! i)))
                            [0..<length Args])))"
proof -
  note mk = Make_fields [OF assms, of fn v x]
  from mk
  have call: "matcher_fn (GetMatcher int_bits Args fn name mask_and_expect
             (map fst fields, map snd fields)) v x =
           Some (fn v (map2 (\<lambda>static_cast (m, s). static_cast (drop_bit s (x AND m)))
                         Args fields))"
    by (simp only: GetMatcher_fn)
  have arg: "map2 (\<lambda>static_cast (m, s). static_cast (drop_bit s (x AND m))) Args fields ! i =
              (Args ! i) (drop_bit (snd (fields ! i)) (x AND fst (fields ! i)))"
    if "i < length fields" for i
    using that assms(1) by (simp add: case_prod_unfold del: drop_bit_and)
  have tab: "matcher_fn (GetMatcher int_bits Args fn name mask_and_expect (ms, shs)) v x =
              Some (fn v (map (\<lambda>i. (Args ! i) (drop_bit (shs ! i) (x AND ms ! i)))
                            [0..<length Args]))"
    if "GetArgInfo ignore_asserts (length Args) bitstring = Inr (ms :: 'a word list, shs)"
    for ignore_asserts bitstring ms shs
  proof -
    note g = GetArgInfo_shifts_bounded [OF that]
    from g(3) have "\<forall>i<length Args. shs ! i < max LENGTH('a) int_bits"
      by auto
    from Make_tables [OF g(1) g(2) this, of fn v x] show ?thesis
      by (simp only: GetMatcher_fn)
  qed
  from call mk arg extract_zero_extended [of _ x] tab
  show ?thesis
    by blast
qed

theorem dispatch_calls_handler_witness:
  "length [\<lambda>w :: 8 word. unat w, \<lambda>w. if w \<noteq> 0 then 1 else 0]
     = length [(0x30 :: 8 word, 4 :: nat), (0x08, 3)] \<and>
   matcher_fn (GetMatcher 32 [\<lambda>w :: 8 word. unat w, \<lambda>w. if w \<noteq> 0 then 1 else 0]
       (\<lambda>(v :: nat) args. v + sum_list args) ''op'' (0xC0, 0x80)
       (map fst [(0x30 :: 8 word, 4 :: nat), (0x08, 3)], map snd [(0x30 :: 8 word, 4 :: nat), (0x08, 3)]))
     100 0xAC = Some (100 + sum_list [2, 1]) \<and>
   unat (drop_bit 4 ((0xAC :: 8 word) AND 0x30))
     = (unat (0xAC :: 8 word) AND unat (0x30 :: 8 word)) div 2 ^ 4 \<and>
   GetArgInfo False 2 ''10aabbb-'' = Inr ([0x30, 0x0E :: 8 word], [4, 1]) \<and>
   matcher_fn (GetMatcher 32 [\<lambda>w :: 8 word. unat w, \<lambda>w. if w \<noteq> 0 then 1 else 0]
       (\<lambda>(v :: nat) args. v + sum_list args) ''op'' (0xC0, 0x80) ([0x30, 0x0E], [4, 1]))
     100 0xAC = Some (100 + sum_list [2, 1])"
proof -
  let ?Args = "[\<lambda>w :: 8 word. unat w, \<lambda>w. if w \<noteq> 0 then 1 else 0]"
  let ?fields = "[(0x30 :: 8 word, 4 :: nat), (0x08, 3)]"
  have len: "length ?Args = length ?fields"
    by simp
  have bound: "\<forall>i<length ?fields. snd (?fields ! i) < max LENGTH(8) 32"
    by (simp add: less_Suc_eq nth_Cons')
  note t = dispatch_calls_handler [OF len bound, of "\<lambda>(v :: nat) args. v + sum_list args" "''op''"
      "(0xC0, 0x80)" 100 "0xAC"]
  from t have call: "matcher_fn (GetMatcher 32 ?Args
       (\<lambda>(v :: nat) args. v + sum_list args) ''op'' (0xC0, 0x80)
       (map fst ?fields, map snd ?fields)) 100 0xAC = Some (100 + sum_list [2, 1])"
    by simp
  from t have "0 < length ?fields \<longrightarrow>
      unat (drop_bit (snd (?fields ! 0)) ((0xAC :: 8 word) AND fst (?fields ! 0))) =
        (unat (0xAC :: 8 word) AND unat (fst (?fields ! 0))) div 2 ^ snd (?fields ! 0)"
    by blast
  then have ext: "unat (drop_bit 4 ((0xAC :: 8 word) AND 0x30)) =
      (unat (0xAC :: 8 word) AND unat (0x30 :: 8 word)) div 2 ^ 4"
    by simp
  have res: "GetArgInfo False 2 ''10aabbb-'' = Inr ([0x30, 0x0E :: 8 word], [4, 1])"
    by code_simp
  from t have "GetArgInfo False (length ?Args) ''10aabbb-'' = Inr ([0x30, 0x0E :: 8 word], [4, 1]) \<longrightarrow>
      matcher_fn (GetMatcher 32 ?Args (\<lambda>(v :: nat) args. v + sum_list args) ''op'' (0xC0, 0x80)
        ([0x30, 0x0E], [4, 1])) 100 0xAC =
      Some ((\<lambda>(v :: nat) args. v + sum_list args) 100
        (map (\<lambda>i. (?Args ! i) (drop_bit ([4, 1] ! i) ((0xAC :: 8 word) AND [0x30, 0x0E] ! i)))
           [0..<length ?Args]))"
    by blast
  moreover have "length ?Args = 2"
    by simp
  with res have "GetArgInfo False (length ?Args) ''10aabbb-'' = Inr ([0x30, 0x0E :: 8 word], [4, 1])"
    by (simp only:)
  ultimately have "matcher_fn (GetMatcher 32 ?Args (\<lambda>(v :: nat) args. v + sum_list args) ''op''
        (0xC0, 0x80) ([0x30, 0x0E], [4, 1])) 100 0xAC =
      Some ((\<lambda>(v :: nat) args. v + sum_list args) 100
        (map (\<lambda>i. (?Args ! i) (drop_bit ([4, 1] ! i) ((0xAC :: 8 word) AND [0x30, 0x0E] ! i)))
           [0..<length ?Args]))"
    by blast
  then have tab: "matcher_fn (GetMatcher 32 ?Args
       (\<lambda>(v :: nat) args. v + sum_list args) ''op'' (0xC0, 0x80) ([0x30, 0x0E], [4, 1]))
     100 0xAC = Some (100 + sum_list [2, 1])"
    by (simp add: upt_rec)
  from len call ext res tab show ?thesis
    by blast
qed

end
